theory Spec2Isabelle
  imports Main "HOL-Library.Char_ord" "HOL-Library.List_Lexorder" "HOL-Library.Multiset"
begin

section \<open>Frontend: selection state (App.tsx)\<close>

text \<open>
  A JavaScript \<^verbatim>\<open>Set<string>\<close> iterates in insertion order and holds every member once.
  It is modelled as the list of its members in insertion order; \<open>setAdd\<close> is
  \<^verbatim>\<open>Set.prototype.add\<close>, \<open>setHas\<close> is \<^verbatim>\<open>has\<close>, \<open>setDelete\<close> is \<^verbatim>\<open>delete\<close>.
\<close>

type_synonym jsSet = "string list"

definition setHas :: "jsSet \<Rightarrow> string \<Rightarrow> bool" where
  "setHas s x = (x \<in> set s)"

definition setAdd :: "jsSet \<Rightarrow> string \<Rightarrow> jsSet" where
  "setAdd s x = (if setHas s x then s else s @ [x])"

definition setDelete :: "jsSet \<Rightarrow> string \<Rightarrow> jsSet" where
  "setDelete s x = filter (\<lambda>y. y \<noteq> x) s"

text \<open>
  \<^verbatim>\<open>type ImageRow = { id; name; url?; mimeType?; isUnused }\<close>
\<close>

record ImageRow =
  row_id :: string
  row_name :: string
  row_url :: string
  row_mimeType :: string
  isUnused :: bool

text \<open>
  \<^verbatim>\<open>
  const allUnusedIds = useMemo(() => {
    const ids = new Set<string>();
    for (const img of scanResult?.images || []) {
      if (img.isUnused) ids.add(img.id);
    }
    return ids;
  }, [scanResult]);
  \<close>
  The argument is \<^verbatim>\<open>scanResult?.images || []\<close>.
\<close>

fun allUnusedIds_loop :: "jsSet \<Rightarrow> ImageRow list \<Rightarrow> jsSet" where
  "allUnusedIds_loop ids [] = ids"
| "allUnusedIds_loop ids (img # imgs) =
     allUnusedIds_loop (if isUnused img then setAdd ids (row_id img) else ids) imgs"

definition allUnusedIds :: "ImageRow list \<Rightarrow> jsSet" where
  "allUnusedIds images = allUnusedIds_loop [] images"

text \<open>
  \<^verbatim>\<open>
  const toggle = useCallback((id: string) => {
    setSelectedIds((prev) => {
      const next = new Set(prev);
      next.has(id) ? next.delete(id) : next.add(id);
      return next;
    });
  }, []);
  \<close>
\<close>

definition toggle :: "string \<Rightarrow> jsSet \<Rightarrow> jsSet" where
  "toggle x prev = (if setHas prev x then setDelete prev x else setAdd prev x)"

text \<open>
  \<^verbatim>\<open>
  setSelectedIds((prev) => {
    if (allUnusedIds.size === 0) return new Set(prev);
    let isAll = true;
    for (const id of allUnusedIds) {
      if (!prev.has(id)) { isAll = false; break; }
    }
    return isAll ? new Set() : new Set(allUnusedIds);
  });
  \<close>
  The loop with its \<^verbatim>\<open>break\<close> is \<open>isAll_loop\<close>.
\<close>

fun isAll_loop :: "jsSet \<Rightarrow> string list \<Rightarrow> bool" where
  "isAll_loop prev [] = True"
| "isAll_loop prev (x # xs) = (if \<not> setHas prev x then False else isAll_loop prev xs)"

definition toggleSelectAllUnused :: "jsSet \<Rightarrow> jsSet \<Rightarrow> jsSet" where
  "toggleSelectAllUnused unusedIds prev =
     (if length unusedIds = 0 then prev
      else if isAll_loop prev unusedIds then [] else unusedIds)"

section \<open>Backend: strings and plain objects\<close>

text \<open>
  JavaScript strings are modelled as \<open>string\<close>, one \<open>char\<close> per code unit below 256.
  \<^verbatim>\<open>String.prototype.trim\<close> removes white space and line terminators from both ends;
  below 256 these are the code units 9 to 13, 32 and 160.
\<close>

definition isWhiteSpace :: "char \<Rightarrow> bool" where
  "isWhiteSpace c = ((of_char c :: nat) \<in> {9, 10, 11, 12, 13, 32, 160})"

definition trim :: "string \<Rightarrow> string" where
  "trim s = rev (dropWhile isWhiteSpace (rev (dropWhile isWhiteSpace s)))"

text \<open>
  An optional string field is \<open>None\<close> when it is \<^verbatim>\<open>undefined\<close>. The empty string is falsy,
  so \<^verbatim>\<open>String(a || "")\<close> is \<open>orEmpty a\<close> and \<^verbatim>\<open>a || b\<close> is \<open>orElse a b\<close>.
\<close>

definition truthy :: "string option \<Rightarrow> bool" where
  "truthy a = (case a of None \<Rightarrow> False | Some t \<Rightarrow> t \<noteq> [])"

definition orElse :: "string option \<Rightarrow> string option \<Rightarrow> string option" where
  "orElse a b = (if truthy a then a else b)"

definition orEmpty :: "string option \<Rightarrow> string" where
  "orEmpty a = (case a of None \<Rightarrow> [] | Some t \<Rightarrow> t)"

text \<open>
  A plain object is the list of its own enumerable properties in the order of
  \<^verbatim>\<open>Object.keys\<close>. Reading \<^verbatim>\<open>obj[key]\<close> finds an own property first and otherwise a
  property inherited from \<^verbatim>\<open>Object.prototype\<close>, whose names are \<open>objectPrototypeNames\<close>;
  each of these inherited values is truthy and has no \<^verbatim>\<open>accessToken\<close>.
\<close>

type_synonym 'a jsObject = "(string \<times> 'a) list"

datatype 'a jsProp = Undefined | Own 'a | Inherited

definition objectPrototypeNames :: "string list" where
  "objectPrototypeNames =
     [''constructor'', ''__defineGetter__'', ''__defineSetter__'', ''hasOwnProperty'',
      ''__lookupGetter__'', ''__lookupSetter__'', ''isPrototypeOf'', ''propertyIsEnumerable'',
      ''toString'', ''valueOf'', ''__proto__'', ''toLocaleString'']"

definition objectKeys :: "'a jsObject \<Rightarrow> string list" where
  "objectKeys obj = map fst obj"

definition jsGet :: "'a jsObject \<Rightarrow> string \<Rightarrow> 'a jsProp" where
  "jsGet obj key =
     (case map_of obj key of
        Some v \<Rightarrow> Own v
      | None \<Rightarrow> if key \<in> set objectPrototypeNames then Inherited else Undefined)"

section \<open>Backend: session data (express-session declaration, server.js)\<close>

text \<open>
  The routes are modelled for a request that has reached them: it has passed the CORS
  and body-parsing middleware and carries a session. A stored session is JSON, so its
  \<^verbatim>\<open>authorizedSites\<close> is absent or a plain object whose entries have the declared shape.
  \<^verbatim>\<open>
  interface SessionData {
    accessToken?: string; scopes?: string; postAuthRedirect?: string;
    authorizedSites?: Record<string, { siteId: string; siteName?: string;
      accessToken?: string; scopes?: string; firstSeenAt: number; lastSeenAt: number }>;
  }
  \<close>
\<close>

record AuthorizedSite =
  siteId :: string
  siteName :: "string option"
  site_accessToken :: "string option"
  site_scopes :: "string option"
  firstSeenAt :: nat
  lastSeenAt :: nat

record session =
  accessToken :: "string option"
  scopes :: "string option"
  postAuthRedirect :: "string option"
  authorizedSites :: "AuthorizedSite jsObject option"

datatype siteSummary = SiteSummary string "string option" "string option"

datatype body =
    Message string
  | AuthStatus bool nat "string list"
  | Sites "siteSummary list"
  | NoBody

datatype response = Response nat body

text \<open>
  \<^verbatim>\<open>
  function hasAnyAuthorization(req) {
    const sites = req.session?.authorizedSites;
    if (!sites || typeof sites !== "object") return false;
    const ids = Object.keys(sites);
    if (ids.length === 0) return false;
    for (const id of ids) {
      const entry = sites[id];
      if (entry && typeof entry === "object" && String(entry.accessToken || "").trim())
        return true;
    }
    return false;
  }
  \<close>
\<close>

fun hasAnyAuthorization_loop :: "AuthorizedSite jsObject \<Rightarrow> string list \<Rightarrow> bool" where
  "hasAnyAuthorization_loop sites [] = False"
| "hasAnyAuthorization_loop sites (i # ids) =
     (case jsGet sites i of
        Own entry \<Rightarrow>
          if trim (orEmpty (site_accessToken entry)) \<noteq> [] then True
          else hasAnyAuthorization_loop sites ids
      | _ \<Rightarrow> hasAnyAuthorization_loop sites ids)"

definition hasAnyAuthorization :: "session \<Rightarrow> bool" where
  "hasAnyAuthorization s =
     (case authorizedSites s of
        None \<Rightarrow> False
      | Some sites \<Rightarrow>
          (let ids = objectKeys sites in
           if length ids = 0 then False else hasAnyAuthorization_loop sites ids))"

text \<open>
  The TypeScript source of the same file keeps an older variant:
  \<^verbatim>\<open>
  function hasAnyAuthorization(req: Request): boolean {
    const anyToken = Boolean(req.session?.accessToken);
    const sites = (req.session as any)?.authorizedSites;
    const hasSites = sites && typeof sites === "object" && Object.keys(sites).length > 0;
    return anyToken || Boolean(hasSites);
  }
  \<close>
\<close>

definition hasAnyAuthorization_ts :: "session \<Rightarrow> bool" where
  "hasAnyAuthorization_ts s =
     (let anyToken = truthy (accessToken s);
          hasSites = (case authorizedSites s of
                        None \<Rightarrow> False
                      | Some sites \<Rightarrow> length (objectKeys sites) > 0)
      in anyToken \<or> hasSites)"

text \<open>
  \<^verbatim>\<open>
  function ensureAuthorizedSites(req) {
    const s = req.session;
    if (!s.authorizedSites || typeof s.authorizedSites !== "object") s.authorizedSites = {};
    return s.authorizedSites;
  }
  \<close>
  The session is mutated in place: the function returns the updated session with the map.
\<close>

definition ensureAuthorizedSites :: "session \<Rightarrow> session \<times> AuthorizedSite jsObject" where
  "ensureAuthorizedSites s =
     (case authorizedSites s of
        None \<Rightarrow> (s\<lparr>authorizedSites := Some []\<rparr>, [])
      | Some m \<Rightarrow> (s, m))"

text \<open>
  \<^verbatim>\<open>
  app.get("/api/auth/status", (req, res) => {
    const map = ensureAuthorizedSites(req);
    res.json({
      authenticated: hasAnyAuthorization(req),
      authorizedSitesCount: Object.keys(map).length,
      siteIds: Object.keys(map),
    });
  });
  \<close>
  The handler returns the session it leaves behind and the response.
\<close>

definition authStatusRoute :: "session \<Rightarrow> session \<times> response" where
  "authStatusRoute s =
     (let (s', m) = ensureAuthorizedSites s
      in (s', Response 200
                (AuthStatus (hasAnyAuthorization s') (length (objectKeys m)) (objectKeys m))))"

text \<open>
  The TypeScript source variant:
  \<^verbatim>\<open>
  app.get("/api/auth/status", (req, res) => {
    res.json({ authenticated: hasAnyAuthorization(req) });
  });
  \<close>
  Its response holds the flag alone.
\<close>

definition authStatusRoute_ts :: "session \<Rightarrow> session \<times> bool" where
  "authStatusRoute_ts s = (s, hasAnyAuthorization_ts s)"

text \<open>
  \<^verbatim>\<open>
  function requireAuth(req, res, next) {
    if (!hasAnyAuthorization(req)) {
      return res.status(401).json({ message: "Not authenticated" });
    }
    next();
  }
  \<close>
  \<open>Some r\<close> ends the request with \<open>r\<close>; \<open>None\<close> is \<^verbatim>\<open>next()\<close>.
\<close>

definition requireAuth :: "session \<Rightarrow> response option" where
  "requireAuth s =
     (if \<not> hasAnyAuthorization s then Some (Response 401 (Message ''Not authenticated''))
      else None)"

text \<open>
  \<^verbatim>\<open>
  function getAccessTokenForSite(req, siteId) {
    const map = ensureAuthorizedSites(req);
    const entry = map[String(siteId || "").trim()];
    const token = String(entry?.accessToken || req.session?.accessToken || "").trim();
    return token;
  }
  \<close>
\<close>

definition getAccessTokenForSite :: "session \<Rightarrow> string \<Rightarrow> session \<times> string" where
  "getAccessTokenForSite s sid =
     (let (s', m) = ensureAuthorizedSites s;
          entryToken = (case jsGet m (trim sid) of
                          Own entry \<Rightarrow> site_accessToken entry
                        | _ \<Rightarrow> None)
      in (s', trim (orEmpty (orElse entryToken (accessToken s')))))"

text \<open>
  Errors thrown inside a route reach the error handler:
  \<^verbatim>\<open>
  app.use((err, _req, res, _next) => {
    if (isWebflowError(err)) {
      return res.status(err.status).json({ message: err.message, ... });
    }
    console.error(err);
    res.status(500).json({ message: "Server error" });
  });
  \<close>
\<close>

datatype jsError = TypeError | WebflowError nat string

definition errorHandler :: "jsError \<Rightarrow> response" where
  "errorHandler err =
     (case err of
        WebflowError st msg \<Rightarrow> Response st (Message msg)
      | TypeError \<Rightarrow> Response 500 (Message ''Server error''))"

text \<open>
  The object \<^verbatim>\<open>webflowApi\<close> that server.js imports from webflow.js. A namespace that the
  object literal does not have is \<open>None\<close>. The function under \<open>api_assets\<close> stands for
  \<^verbatim>\<open>assets.delete(token, assetId)\<close>: it returns what the upstream service answers.
  \<^verbatim>\<open>
  export const webflowApi = {
      token: {
          authorizedBy: (token) => wf(token, "/token/authorized_by"),
          introspect: (token) => wf(token, "/token/introspect"),
      },
      sites: {
          list: (token) => wf(token, "/sites"),
      },
  };
  \<close>
\<close>

record webflowApiObject =
  api_token :: "unit option"
  api_sites :: "unit option"
  api_assets :: "(string \<Rightarrow> string \<Rightarrow> jsError + unit) option"

definition webflowApi :: webflowApiObject where
  "webflowApi = \<lparr>api_token = Some (), api_sites = Some (), api_assets = None\<rparr>"

text \<open>
  \<^verbatim>\<open>
  app.delete("/api/sites/:siteId/assets/:assetId", requireAuth, asyncRoute(async (req, res) => {
    const siteId = String(req.params.siteId || "").trim();
    const assetId = String(req.params.assetId || "").trim();
    if (!siteId || !assetId) {
      return res.status(400).json({ message: "Missing siteId or assetId" });
    }
    const authorizedSites = ensureAuthorizedSites(req);
    if (!authorizedSites[siteId]) {
      return res.status(403).json({ message: "Site is not authorized for this session" });
    }
    const token = getAccessTokenForSite(req, siteId);
    if (!token) return res.status(401).json({ message: "Not authenticated" });
    await webflowApi.assets.delete(token, assetId);
    return res.status(204).send();
  }));
  \<close>
  The result is the session left behind, the response, and the upstream delete calls made,
  each as (token, asset id). Reading \<^verbatim>\<open>webflowApi.assets.delete\<close> when
  \<^verbatim>\<open>webflowApi.assets\<close> is undefined throws a TypeError, which \<^verbatim>\<open>asyncRoute\<close> passes to the
  error handler.
\<close>

definition deleteAssetRoute ::
  "webflowApiObject \<Rightarrow> session \<Rightarrow> string \<Rightarrow> string \<Rightarrow> session \<times> response \<times> (string \<times> string) list"
where
  "deleteAssetRoute api s siteIdParam assetIdParam =
     (case requireAuth s of
        Some r \<Rightarrow> (s, r, [])
      | None \<Rightarrow>
          (let sid = trim siteIdParam; aid = trim assetIdParam in
           if sid = [] \<or> aid = [] then
             (s, Response 400 (Message ''Missing siteId or assetId''), [])
           else
             (let (s1, sitesMap) = ensureAuthorizedSites s in
              if jsGet sitesMap sid = Undefined then
                (s1, Response 403 (Message ''Site is not authorized for this session''), [])
              else
                (let (s2, token) = getAccessTokenForSite s1 sid in
                 if token = [] then (s2, Response 401 (Message ''Not authenticated''), [])
                 else
                   (case api_assets api of
                      None \<Rightarrow> (s2, errorHandler TypeError, [])
                    | Some del \<Rightarrow>
                        (case del token aid of
                           Inl err \<Rightarrow> (s2, errorHandler err, [(token, aid)])
                         | Inr _ \<Rightarrow> (s2, Response 204 NoBody, [(token, aid)])))))))"

text \<open>
  \<^verbatim>\<open>
  app.get("/api/sites", requireAuth, (req, res) => {
    const map = ensureAuthorizedSites(req);
    const sites = Object.keys(map)
        .map((id) => ({ id, displayName: map[id]?.siteName, shortName: map[id]?.siteName }))
        .sort((a, b) => String(a.displayName || a.id).localeCompare(String(b.displayName || b.id)));
    res.json({ sites });
  });
  \<close>
  \<^verbatim>\<open>String.prototype.localeCompare\<close> is the host's collation; it is the parameter \<open>lc\<close>.
  \<^verbatim>\<open>Array.prototype.sort\<close> is a stable sort: an element goes before another when the
  comparator is negative, and elements that compare equal keep their order. It is modelled
  by insertion from the right.
\<close>

fun arraySort_insert :: "('a \<Rightarrow> 'a \<Rightarrow> int) \<Rightarrow> 'a \<Rightarrow> 'a list \<Rightarrow> 'a list" where
  "arraySort_insert cmp x [] = [x]"
| "arraySort_insert cmp x (y # ys) =
     (if cmp x y \<le> 0 then x # y # ys else y # arraySort_insert cmp x ys)"

fun arraySort :: "('a \<Rightarrow> 'a \<Rightarrow> int) \<Rightarrow> 'a list \<Rightarrow> 'a list" where
  "arraySort cmp [] = []"
| "arraySort cmp (x # xs) = arraySort_insert cmp x (arraySort cmp xs)"

fun summary_id :: "siteSummary \<Rightarrow> string" where
  "summary_id (SiteSummary i d sh) = i"

fun displayName :: "siteSummary \<Rightarrow> string option" where
  "displayName (SiteSummary i d sh) = d"

definition sortKey :: "siteSummary \<Rightarrow> string" where
  "sortKey a = orEmpty (orElse (displayName a) (Some (summary_id a)))"

definition siteSummaryOf :: "AuthorizedSite jsObject \<Rightarrow> string \<Rightarrow> siteSummary" where
  "siteSummaryOf m i =
     (let nm = (case jsGet m i of Own entry \<Rightarrow> siteName entry | _ \<Rightarrow> None)
      in SiteSummary i nm nm)"

definition sitesRoute :: "(string \<Rightarrow> string \<Rightarrow> int) \<Rightarrow> session \<Rightarrow> session \<times> response" where
  "sitesRoute lc s =
     (case requireAuth s of
        Some r \<Rightarrow> (s, r)
      | None \<Rightarrow>
          (let (s1, m) = ensureAuthorizedSites s;
               sites = arraySort (\<lambda>a b. lc (sortKey a) (sortKey b))
                         (map (siteSummaryOf m) (objectKeys m))
           in (s1, Response 200 (Sites sites))))"

text \<open>The session's authorized-site map, empty when the session has none.\<close>

definition sitesOf :: "session \<Rightarrow> AuthorizedSite jsObject" where
  "sitesOf s = (case authorizedSites s of None \<Rightarrow> [] | Some m \<Rightarrow> m)"

text \<open>A site entry carries a token when the token is not blank.\<close>

definition carriesToken :: "AuthorizedSite \<Rightarrow> bool" where
  "carriesToken e = (trim (orEmpty (site_accessToken e)) \<noteq> [])"

text \<open>Concrete sessions used below.\<close>

definition blankTokenSession :: session where
  "blankTokenSession =
     \<lparr>accessToken = Some ''tok'', scopes = None, postAuthRedirect = None,
      authorizedSites = Some [(''s1'', \<lparr>siteId = ''s1'', siteName = None,
         site_accessToken = Some '' '', site_scopes = None, firstSeenAt = 0, lastSeenAt = 0\<rparr>)]\<rparr>"

definition freshSession :: session where
  "freshSession = \<lparr>accessToken = None, scopes = None, postAuthRedirect = None, authorizedSites = None\<rparr>"

definition globalTokenOnlySession :: session where
  "globalTokenOnlySession =
     \<lparr>accessToken = Some ''tok'', scopes = None, postAuthRedirect = None,
      authorizedSites = Some []\<rparr>"

definition oneSiteSession :: session where
  "oneSiteSession =
     \<lparr>accessToken = Some ''tok'', scopes = None, postAuthRedirect = None,
      authorizedSites = Some [(''s1'', \<lparr>siteId = ''s1'', siteName = Some ''Shop'',
         site_accessToken = Some ''tok1'', site_scopes = None, firstSeenAt = 0, lastSeenAt = 0\<rparr>)]\<rparr>"

text \<open>An API object that does provide \<^verbatim>\<open>assets.delete\<close>, with an upstream that accepts.\<close>

definition acceptingApi :: webflowApiObject where
  "acceptingApi =
     \<lparr>api_token = Some (), api_sites = Some (), api_assets = Some (\<lambda>token assetId. Inr ())\<rparr>"

text \<open>
  A comparator is consistent when it is negative exactly if the swapped comparison is
  positive, and "not after" is transitive. \<^verbatim>\<open>localeCompare\<close> is such a comparator.
\<close>

definition consistentComparator :: "('a \<Rightarrow> 'a \<Rightarrow> int) \<Rightarrow> bool" where
  "consistentComparator cmp =
     ((\<forall>x y. (cmp x y < 0) = (0 < cmp y x))
      \<and> (\<forall>x y z. cmp x y \<le> 0 \<and> cmp y z \<le> 0 \<longrightarrow> cmp x z \<le> 0))"

text \<open>A concrete consistent comparator: strings compared code unit by code unit.\<close>

definition codeUnitCompare :: "string \<Rightarrow> string \<Rightarrow> int" where
  "codeUnitCompare a b = (if a < b then - 1 else if a = b then 0 else 1)"

definition sameNameSession :: session where
  "sameNameSession =
     \<lparr>accessToken = Some ''tok'', scopes = None, postAuthRedirect = None,
      authorizedSites = Some
        [(''b'', \<lparr>siteId = ''b'', siteName = Some ''Shop'', site_accessToken = Some ''tok'',
                  site_scopes = None, firstSeenAt = 0, lastSeenAt = 0\<rparr>),
         (''a'', \<lparr>siteId = ''a'', siteName = Some ''Shop'', site_accessToken = Some ''tok'',
                  site_scopes = None, firstSeenAt = 1, lastSeenAt = 1\<rparr>)]\<rparr>"

definition twoNamesSession :: session where
  "twoNamesSession =
     \<lparr>accessToken = Some ''tok'', scopes = None, postAuthRedirect = None,
      authorizedSites = Some
        [(''s1'', \<lparr>siteId = ''s1'', siteName = Some ''Tea'', site_accessToken = Some ''tok'',
                  site_scopes = None, firstSeenAt = 0, lastSeenAt = 0\<rparr>),
         (''s2'', \<lparr>siteId = ''s2'', siteName = Some ''Shop'', site_accessToken = Some ''tok'',
                  site_scopes = None, firstSeenAt = 1, lastSeenAt = 1\<rparr>)]\<rparr>"

section \<open>Backend: OAuth scopes (webflow.js)\<close>

text \<open>
  The separator pattern \<^verbatim>\<open>/[\s,]+/\<close> matches a maximal run of white space and commas.
  \<^verbatim>\<open>String.prototype.split\<close> cuts the string at every such run; a run at the start or at
  the end leaves an empty piece there, and the empty string gives one empty piece.
\<close>

definition isScopeSep :: "char \<Rightarrow> bool" where
  "isScopeSep c = (isWhiteSpace c \<or> c = CHR '','')"

function splitScopes :: "string \<Rightarrow> string list" where
  "splitScopes s =
     (let piece = takeWhile (\<lambda>c. \<not> isScopeSep c) s;
          rest = dropWhile (\<lambda>c. \<not> isScopeSep c) s
      in if rest = [] then [piece] else piece # splitScopes (dropWhile isScopeSep rest))"
  by pat_completeness auto
termination
proof (relation "measure length")
  show "wf (measure length)" by simp
next
  fix s :: string and piece rest
  assume r: "rest = dropWhile (\<lambda>c. \<not> isScopeSep c) s" and ne: "rest \<noteq> []"
  from r ne have "isScopeSep (hd rest)"
    using hd_dropWhile [of "\<lambda>c. \<not> isScopeSep c" s] by simp
  with ne have "length (dropWhile isScopeSep rest) < length rest"
    by (cases rest) (auto simp: le_imp_less_Suc length_dropWhile_le)
  moreover have "length rest \<le> length s"
    using r by (simp add: length_dropWhile_le)
  ultimately show "(dropWhile isScopeSep rest, s) \<in> measure length" by simp
qed

declare splitScopes.simps [simp del]

text \<open>
  \<^verbatim>\<open>raw.split(/[\s,]+/).map((s) => s.trim()).filter(Boolean)\<close>
\<close>

definition parseScopes :: "string \<Rightarrow> string list" where
  "parseScopes raw = filter (\<lambda>s. s \<noteq> []) (map trim (splitScopes raw))"

text \<open>\<^verbatim>\<open>Array.prototype.join(" ")\<close>\<close>

fun joinSpace :: "string list \<Rightarrow> string" where
  "joinSpace [] = []"
| "joinSpace [w] = w"
| "joinSpace (w # v # ws) = w @ '' '' @ joinSpace (v # ws)"

text \<open>
  \<^verbatim>\<open>
  function normalizeScopes(raw) {
      return raw.split(/[\s,]+/).map((s) => s.trim()).filter(Boolean).join(" ");
  }
  function mergeScopes(required, provided) {
      const req = required.split(/[\s,]+/).map((s) => s.trim()).filter(Boolean);
      const prov = String(provided || "").split(/[\s,]+/).map((s) => s.trim()).filter(Boolean);
      const reqSet = new Set(req);
      const out = [...req];
      for (const s of prov) {
          if (!reqSet.has(s)) out.push(s);
      }
      return out.join(" ");
  }
  \<close>
  \<open>provided\<close> is \<open>None\<close> when the environment variable is not set.
\<close>

definition normalizeScopes :: "string \<Rightarrow> string" where
  "normalizeScopes raw = joinSpace (parseScopes raw)"

fun mergeScopes_loop :: "string list \<Rightarrow> string list \<Rightarrow> string list \<Rightarrow> string list" where
  "mergeScopes_loop reqSet out [] = out"
| "mergeScopes_loop reqSet out (s # prov) =
     mergeScopes_loop reqSet (if \<not> setHas reqSet s then out @ [s] else out) prov"

definition mergeScopes :: "string \<Rightarrow> string option \<Rightarrow> string" where
  "mergeScopes required provided =
     (let req = parseScopes required;
          prov = parseScopes (orEmpty provided);
          reqSet = foldl setAdd [] req;
          out = mergeScopes_loop reqSet req prov
      in joinSpace out)"

text \<open>
  The scope parameter of the authorize URL:
  \<^verbatim>\<open>
  const REQUIRED_SCOPES = "sites:read,authorized_user:read,assets:read,assets:write";
  const merged = mergeScopes(REQUIRED_SCOPES, process.env.WEBFLOW_SCOPES);
  const scope = normalizeScopes(merged);
  \<close>
\<close>

definition REQUIRED_SCOPES :: string where
  "REQUIRED_SCOPES = ''sites:read,authorized_user:read,assets:read,assets:write''"

definition authorizeUrl_scope :: "string option \<Rightarrow> string" where
  "authorizeUrl_scope WEBFLOW_SCOPES = normalizeScopes (mergeScopes REQUIRED_SCOPES WEBFLOW_SCOPES)"

text \<open>A scope token is not empty and holds no separator.\<close>

definition scopeToken :: "string \<Rightarrow> bool" where
  "scopeToken w = (w \<noteq> [] \<and> list_all (\<lambda>c. \<not> isScopeSep c) w)"

section \<open>Frontend: the host and the backend as seen by the panel\<close>

text \<open>
  The Designer host object \<^verbatim>\<open>webflow\<close> and the objects it hands out are untyped; a method
  may be missing. A method is \<open>None\<close> when the host does not provide it, and otherwise gives
  the outcome of awaiting the call: \<open>Rejected\<close> when the call throws or its promise rejects,
  \<open>Resolved v\<close> when it yields \<open>v\<close>. Host methods are asynchronous, and the outcome of a
  call is a function of its arguments.
\<close>

datatype 'a outcome = Rejected | Resolved 'a

text \<open>
  A style object: \<^verbatim>\<open>getProperties\<close> yields the property payload. The payload is kept as the
  text that the sweep scans (the payload itself when it is a string, else its JSON
  serialisation); \<open>None\<close> is a payload that is \<^verbatim>\<open>null\<close>, \<^verbatim>\<open>undefined\<close> or otherwise falsy.
\<close>

record hostStyle =
  getProperties :: "string option outcome option"

text \<open>
  An element: its \<^verbatim>\<open>type\<close>; \<^verbatim>\<open>getAsset\<close> and \<^verbatim>\<open>getBackgroundImage\<close> yield the id of an
  asset (\<open>None\<close> when there is no asset or it has no id); \<^verbatim>\<open>getStyles\<close> yields the attached
  styles and \<^verbatim>\<open>getStyle\<close> the inline style (\<open>None\<close> when there is none).
\<close>

record hostElement =
  el_type :: string
  getAsset :: "string option outcome option"
  getStyles :: "hostStyle list outcome option"
  getStyle :: "hostStyle option outcome option"
  getBackgroundImage :: "string option outcome option"

text \<open>
  A page: whether \<^verbatim>\<open>webflow.switchPage(page)\<close> succeeds, what \<^verbatim>\<open>webflow.getAllElements\<close>
  gives once the page is current, and the page's two social-preview image URLs.
\<close>

record hostPage =
  switchPage :: bool
  getAllElements :: "hostElement list outcome option"
  getOpenGraphImage :: "string outcome option"
  getSearchImage :: "string outcome option"

text \<open>An entry of \<^verbatim>\<open>getAllPagesAndFolders\<close>: its \<^verbatim>\<open>type\<close> is \<^verbatim>\<open>"Page"\<close> or something else.\<close>

datatype hostItem = Page hostPage | Folder

text \<open>An asset object of the host.\<close>

record hostAsset =
  asset_id :: string
  getMimeType :: "string outcome option"
  getName :: "string outcome option"
  getUrl :: "string outcome option"
  asset_remove :: "unit outcome option"

record designer =
  getAllAssets :: "hostAsset list outcome option"
  getAllPagesAndFolders :: "hostItem list outcome option"
  getAllStyles :: "hostStyle list outcome option"
  getAssetById :: "(string \<Rightarrow> hostAsset option outcome) option"
  removeAsset :: "(hostAsset \<Rightarrow> unit outcome) option"

text \<open>
  \<^verbatim>\<open>api.deleteAsset(siteId, assetId)\<close> resolves, or throws an \<^verbatim>\<open>ApiError\<close> with a status and
  a message (status 0 when there is no HTTP answer).
\<close>

datatype apiResult = ApiOk | ApiError nat string

type_synonym backend = "string \<Rightarrow> string \<Rightarrow> apiResult"

section \<open>Frontend: application state (App.tsx)\<close>

record ScanMeta =
  scannedPages :: nat
  scannedElements :: nat
  scannedStyles :: nat
  detectedReferences :: nat
  durationMs :: nat
  scannedAssets :: nat

record ScanResult =
  images :: "ImageRow list"
  meta :: ScanMeta

datatype screen = Intro | Scanning | Results | Success

text \<open>
  The message shown after a delete run is kept as its parts: the number of failed ids and
  the hint appended to it. Other messages are plain text.
\<close>

datatype hint = NoHint | AuthIssue | PermissionIssue

datatype uiError = ErrorText string | CouldNotDelete nat hint

record appState =
  screen :: screen
  scanResult :: "ScanResult option"
  error :: "uiError option"
  selectedIds :: jsSet
  deleting :: bool
  deleteProgress :: "(nat \<times> nat) option"
  authGate_siteId :: "string option"

section \<open>Frontend: the delete pipeline (App.tsx, performDelete)\<close>

text \<open>\<^verbatim>\<open>String.prototype.toLowerCase\<close> and \<^verbatim>\<open>includes\<close>, on ASCII letters.\<close>

definition toLowerCase :: "string \<Rightarrow> string" where
  "toLowerCase s =
     map (\<lambda>c. if CHR ''A'' \<le> c \<and> c \<le> CHR ''Z'' then char_of (of_char c + (32::nat)) else c) s"

fun includesStr :: "string \<Rightarrow> string \<Rightarrow> bool" where
  "includesStr [] sub = (sub = [])"
| "includesStr (c # cs) sub = (take (length sub) (c # cs) = sub \<or> includesStr cs sub)"

text \<open>
  \<^verbatim>\<open>
  const tryRemoveFromDesigner = async (assetMaybe: any, assetId: string): Promise<boolean> => {
    let asset = assetMaybe;
    if (!asset && typeof webflow.getAssetById === "function") {
      try { asset = await webflow.getAssetById(assetId); } catch { asset = null; }
    }
    if (!asset) return true;
    try {
      if (typeof asset.remove === "function") { await asset.remove(); return true; }
    } catch {}
    try {
      if (typeof webflow.removeAsset === "function") { await webflow.removeAsset(asset); return true; }
    } catch {}
    return false;
  };
  \<close>
\<close>

definition tryRemoveFromDesigner :: "designer \<Rightarrow> hostAsset option \<Rightarrow> string \<Rightarrow> bool" where
  "tryRemoveFromDesigner webflow assetMaybe assetId =
     (let asset =
            (case assetMaybe of
               Some a \<Rightarrow> Some a
             | None \<Rightarrow>
                 (case getAssetById webflow of
                    None \<Rightarrow> None
                  | Some byId \<Rightarrow>
                      (case byId assetId of Rejected \<Rightarrow> None | Resolved a \<Rightarrow> a)))
      in case asset of
           None \<Rightarrow> True
         | Some a \<Rightarrow>
             (case asset_remove a of
                Some (Resolved _) \<Rightarrow> True
              | _ \<Rightarrow>
                  (case removeAsset webflow of
                     None \<Rightarrow> False
                   | Some rm \<Rightarrow> (case rm a of Resolved _ \<Rightarrow> True | Rejected \<Rightarrow> False))))"

text \<open>
  The bookkeeping of one run: \<^verbatim>\<open>deleted\<close>, \<^verbatim>\<open>failed\<close>, the two failure flags,
  \<^verbatim>\<open>done\<close>, and the progress reports made by \<^verbatim>\<open>setDeleteProgress\<close> in the loop.
\<close>

record deleteRun =
  deleted :: jsSet
  failed :: "string list"
  authFailed :: bool
  scopeFailed :: bool
  doneCount :: nat
  progress :: "(nat \<times> nat) list"

text \<open>
  \<^verbatim>\<open>
  for (const id of ids) {
    const assetObj = byId.get(id);
    let ok = false;
    if (siteId) {
      try { await api.deleteAsset(siteId, id); ok = true; }
      catch (e: any) {
        const status = Number(e?.status || 0);
        const msg = String(e?.message || "").toLowerCase();
        if (status === 401) authFailed = true;
        if (status === 403 || msg.includes("scope") || msg.includes("assets:write")) scopeFailed = true;
        ok = false;
      }
    }
    const designerOk = await tryRemoveFromDesigner(assetObj, id);
    ok = ok || designerOk;
    if (ok) deleted.add(id);
    else failed.push(id);
    done++;
    setDeleteProgress({ done, total: ids.length });
  }
  \<close>
\<close>

definition backendStep :: "backend \<Rightarrow> string \<Rightarrow> string \<Rightarrow> deleteRun \<Rightarrow> bool \<times> deleteRun" where
  "backendStep api sid i r =
     (if sid \<noteq> [] then
        (case api sid i of
           ApiOk \<Rightarrow> (True, r)
         | ApiError status message \<Rightarrow>
             (let msg = toLowerCase message;
                  r1 = (if status = 401 then r\<lparr>authFailed := True\<rparr> else r);
                  r2 = (if status = 403 \<or> includesStr msg ''scope'' \<or> includesStr msg ''assets:write''
                        then r1\<lparr>scopeFailed := True\<rparr> else r1)
              in (False, r2)))
      else (False, r))"

fun deleteLoop ::
  "designer \<Rightarrow> backend \<Rightarrow> string \<Rightarrow> (string \<Rightarrow> hostAsset option) \<Rightarrow> nat \<Rightarrow> string list
     \<Rightarrow> deleteRun \<Rightarrow> deleteRun"
where
  "deleteLoop webflow api sid byId tot [] r = r"
| "deleteLoop webflow api sid byId tot (i # ids) r =
     (let assetObj = byId i;
          (ok1, r1) = backendStep api sid i r;
          designerOk = tryRemoveFromDesigner webflow assetObj i;
          ok = (ok1 \<or> designerOk);
          r2 = (if ok then r1\<lparr>deleted := setAdd (deleted r1) i\<rparr>
                else r1\<lparr>failed := failed r1 @ [i]\<rparr>);
          r3 = r2\<lparr>doneCount := doneCount r2 + 1,
                   progress := progress r2 @ [(doneCount r2 + 1, tot)]\<rparr>
      in deleteLoop webflow api sid byId tot ids r3)"

text \<open>
  \<^verbatim>\<open>
  const assets = await webflow.getAllAssets?.().catch(() => []);
  const list: any[] = Array.isArray(assets) ? assets : [];
  const byId = new Map<string, any>(list.map((a: any) => [String(a.id), a]));
  \<close>
  A later entry of the list replaces an earlier one with the same id.
\<close>

definition enumeratedAssets :: "designer \<Rightarrow> hostAsset list" where
  "enumeratedAssets webflow =
     (case getAllAssets webflow of Some (Resolved l) \<Rightarrow> l | _ \<Rightarrow> [])"

definition assetsById :: "hostAsset list \<Rightarrow> string \<Rightarrow> hostAsset option" where
  "assetsById l = map_of (rev (map (\<lambda>a. (asset_id a, a)) l))"

text \<open>
  \<^verbatim>\<open>
  const performDelete = useCallback(async () => {
    if (!scanResult) return;
    const ids = Array.from(selectedIds);
    if (ids.length === 0) return;
    setDeleting(true);
    setDeleteProgress({ done: 0, total: ids.length });
    setError(null);
    const siteId = String(authGate.siteId || "").trim();
    const deleted = new Set<string>();  const failed: string[] = [];
    let authFailed = false;  let scopeFailed = false;
    try {
      ... the loop ...
      setScanResult((prev) => {
        if (!prev) return prev;
        const nextImages = prev.images.filter((img) => !deleted.has(img.id));
        return { images: nextImages,
                 meta: { ...prev.meta,
                         scannedAssets: Math.max(0, (prev.meta?.scannedAssets || 0) - deleted.size) } };
      });
      setSelectedIds(new Set());
      const remainingUnused = (scanResult.images || []).filter(
        (img) => img.isUnused && !deleted.has(img.id)).length;
      setScreen(remainingUnused === 0 ? "success" : "results");
      if (failed.length > 0) {
        let msg = `Could not delete ${failed.length} image...`;
        if (authFailed) msg += "Auth issue ..."; else if (scopeFailed) msg += "Permission issue ...";
        setError(msg);
      }
    } finally { setDeleting(false); setDeleteProgress(null); }
  }, [authGate.siteId, scanResult, selectedIds]);
  \<close>
  The result is the state after the run and the bookkeeping of the run; \<open>None\<close> when the
  function returns at once. While a run is in progress the scan result cannot change (the
  controls are disabled), so \<^verbatim>\<open>prev\<close> is \<^verbatim>\<open>scanResult\<close>.
\<close>

definition emptyRun :: deleteRun where
  "emptyRun = \<lparr>deleted = [], failed = [], authFailed = False, scopeFailed = False,
               doneCount = 0, progress = []\<rparr>"

definition runDelete :: "designer \<Rightarrow> backend \<Rightarrow> appState \<Rightarrow> deleteRun" where
  "runDelete webflow api st =
     (let ids = selectedIds st;
          sid = trim (orEmpty (authGate_siteId st));
          byId = assetsById (enumeratedAssets webflow)
      in deleteLoop webflow api sid byId (length ids) ids emptyRun)"

definition performDelete :: "designer \<Rightarrow> backend \<Rightarrow> appState \<Rightarrow> appState \<times> deleteRun option" where
  "performDelete webflow api st =
     (case scanResult st of
        None \<Rightarrow> (st, None)
      | Some sr \<Rightarrow>
          if length (selectedIds st) = 0 then (st, None)
          else
            (let run = runDelete webflow api st;
                 nextImages = filter (\<lambda>img. \<not> setHas (deleted run) (row_id img)) (images sr);
                 sr' = \<lparr>images = nextImages,
                        meta = (meta sr)\<lparr>scannedAssets :=
                                 scannedAssets (meta sr) - length (deleted run)\<rparr>\<rparr>;
                 remainingUnused =
                   length (filter (\<lambda>img. isUnused img \<and> \<not> setHas (deleted run) (row_id img))
                             (images sr));
                 err = (if length (failed run) > 0 then
                          Some (CouldNotDelete (length (failed run))
                                  (if authFailed run then AuthIssue
                                   else if scopeFailed run then PermissionIssue else NoHint))
                        else None)
             in (st\<lparr>scanResult := Some sr',
                     selectedIds := [],
                     screen := (if remainingUnused = 0 then Success else Results),
                     error := err,
                     deleting := False,
                     deleteProgress := None\<rparr>,
                 Some run)))"

text \<open>
  What one pass of the loop decides for an id: the backend delete succeeded (which needs a
  known site id), or the removal from the Designer reported success.
\<close>

definition backendDeleted :: "backend \<Rightarrow> appState \<Rightarrow> string \<Rightarrow> bool" where
  "backendDeleted api st i =
     (trim (orEmpty (authGate_siteId st)) \<noteq> []
      \<and> api (trim (orEmpty (authGate_siteId st))) i = ApiOk)"

definition designerRemoved :: "designer \<Rightarrow> string \<Rightarrow> bool" where
  "designerRemoved webflow i =
     tryRemoveFromDesigner webflow (assetsById (enumeratedAssets webflow) i) i"


definition row :: "string \<Rightarrow> bool \<Rightarrow> ImageRow" where
  "row i u = \<lparr>row_id = i, row_name = ''Untitled'', row_url = [], row_mimeType = ''image/png'',
              isUnused = u\<rparr>"

definition threeRowsState :: appState where
  "threeRowsState =
     \<lparr>screen = Results,
      scanResult = Some \<lparr>images = [row ''a1'' True, row ''a2'' True, row ''a3'' False],
                         meta = \<lparr>scannedPages = 1, scannedElements = 0, scannedStyles = 0,
                                 detectedReferences = 1, durationMs = 5, scannedAssets = 3\<rparr>\<rparr>,
      error = None, selectedIds = [''a1'', ''a2''], deleting = False, deleteProgress = None,
      authGate_siteId = Some ''s1''\<rparr>"


definition refusingBackend :: backend where
  "refusingBackend sid i = ApiError 403 ''Missing scope''"

text \<open>A host that cannot enumerate assets and has no \<^verbatim>\<open>getAssetById\<close>.\<close>

definition blindDesigner :: designer where
  "blindDesigner =
     \<lparr>getAllAssets = Some Rejected, getAllPagesAndFolders = None, getAllStyles = None,
      getAssetById = None, removeAsset = None\<rparr>"

section \<open>Frontend: the reference sweep (App.tsx, runScan)\<close>

text \<open>
  \<^verbatim>\<open>type ImgInternal = { id; name; url; mimeType; assetObj; used }\<close>
\<close>

record ImgInternal =
  img_id :: string
  img_name :: string
  img_url :: string
  img_mimeType :: string
  used :: bool

text \<open>
  \<^verbatim>\<open>
  for (const asset of allAssets) {
    let mimeType = "";
    try { mimeType = (await asset.getMimeType?.()) || ""; } catch { mimeType = ""; }
    if (!mimeType.startsWith("image/")) continue;
    let name = "Untitled";  let url = "";
    try { name = (await asset.getName?.()) || name; } catch {}
    try { url = (await asset.getUrl?.()) || ""; } catch {}
    images.push({ id: String(asset.id), name, url, mimeType, assetObj: asset, used: false });
  }
  \<close>
\<close>

definition awaitOr :: "string outcome option \<Rightarrow> string \<Rightarrow> string" where
  "awaitOr m dflt = (case m of Some (Resolved v) \<Rightarrow> (if v \<noteq> [] then v else dflt) | _ \<Rightarrow> dflt)"

fun collectImages :: "hostAsset list \<Rightarrow> ImgInternal list" where
  "collectImages [] = []"
| "collectImages (asset # assets) =
     (let mimeType = awaitOr (getMimeType asset) [] in
      if take 6 mimeType \<noteq> ''image/'' then collectImages assets
      else \<lparr>img_id = asset_id asset,
            img_name = awaitOr (getName asset) ''Untitled'',
            img_url = awaitOr (getUrl asset) [],
            img_mimeType = mimeType,
            used = False\<rparr> # collectImages assets)"

text \<open>
  \<^verbatim>\<open>
  const imageById = new Map<string, ImgInternal>();
  const urlToId = new Map<string, string>();
  for (const img of images) {
    imageById.set(img.id, img);
    if (img.url) urlToId.set(img.url, img.id);
  }
  \<close>
  The values of \<^verbatim>\<open>imageById\<close> are the objects of \<^verbatim>\<open>images\<close> themselves; the model keeps
  the position of the object in \<^verbatim>\<open>images\<close>.
\<close>

record lookups =
  imageById :: "string \<Rightarrow> nat option"
  urlToId :: "string \<Rightarrow> string option"

fun buildLookups :: "lookups \<Rightarrow> nat \<Rightarrow> ImgInternal list \<Rightarrow> lookups" where
  "buildLookups lk k [] = lk"
| "buildLookups lk k (img # imgs) =
     buildLookups
       \<lparr>imageById = (imageById lk)(img_id img \<mapsto> k),
        urlToId = (if img_url img \<noteq> [] then (urlToId lk)(img_url img \<mapsto> img_id img)
                   else urlToId lk)\<rparr>
       (Suc k) imgs"

definition emptyLookups :: lookups where
  "emptyLookups = \<lparr>imageById = Map.empty, urlToId = Map.empty\<rparr>"

text \<open>The variables that the sweep updates.\<close>

record scanVars =
  sv_images :: "ImgInternal list"
  sv_scannedPages :: nat
  sv_scannedElements :: nat
  sv_detectedReferences :: nat

text \<open>
  \<^verbatim>\<open>
  const markUsed = (assetId?: string) => {
    if (!assetId) return;
    const entry = imageById.get(assetId);
    if (entry && !entry.used) { entry.used = true; detectedReferences++; }
  };
  \<close>
\<close>

definition markUsed :: "lookups \<Rightarrow> string \<Rightarrow> scanVars \<Rightarrow> scanVars" where
  "markUsed lk assetId v =
     (if assetId = [] then v
      else case imageById lk assetId of
             None \<Rightarrow> v
           | Some k \<Rightarrow>
               if \<not> used (sv_images v ! k) then
                 v\<lparr>sv_images := (sv_images v)[k := (sv_images v ! k)\<lparr>used := True\<rparr>],
                   sv_detectedReferences := sv_detectedReferences v + 1\<rparr>
               else v)"

text \<open>
  The matches of \<^verbatim>\<open>/[a-f0-9]{24}/gi\<close>: from left to right, each match is 24 hexadecimal
  digits of either case and the search goes on after the match.
\<close>

definition isHexDigit :: "char \<Rightarrow> bool" where
  "isHexDigit c =
     ((CHR ''0'' \<le> c \<and> c \<le> CHR ''9'') \<or> (CHR ''a'' \<le> c \<and> c \<le> CHR ''f'')
      \<or> (CHR ''A'' \<le> c \<and> c \<le> CHR ''F''))"

fun hexIds :: "string \<Rightarrow> string list" where
  "hexIds [] = []"
| "hexIds (c # cs) =
     (if 23 \<le> length cs \<and> list_all isHexDigit (c # take 23 cs)
      then (c # take 23 cs) # hexIds (drop 23 cs)
      else hexIds cs)"

text \<open>
  The matches of \<^verbatim>\<open>/https?:\/\/[^\s"')]+/g\<close>: the scheme, then one or more characters
  that are neither white space nor one of \<^verbatim>\<open>" ' )\<close>, as many as there are.
\<close>

definition isUrlStop :: "char \<Rightarrow> bool" where
  "isUrlStop c = (isWhiteSpace c \<or> c = CHR 0x22 \<or> c = CHR 0x27 \<or> c = CHR '')'')"

definition urlScheme :: "string \<Rightarrow> nat option" where
  "urlScheme s =
     (if take 8 s = ''https://'' then Some 8
      else if take 7 s = ''http://'' then Some 7 else None)"

definition urlAt :: "string \<Rightarrow> (string \<times> string) option" where
  "urlAt s =
     (case urlScheme s of
        None \<Rightarrow> None
      | Some n \<Rightarrow>
          (let tail = takeWhile (\<lambda>c. \<not> isUrlStop c) (drop n s) in
           if tail = [] then None
           else Some (take n s @ tail, dropWhile (\<lambda>c. \<not> isUrlStop c) (drop n s))))"

function urlMatches :: "string \<Rightarrow> string list" where
  "urlMatches [] = []"
| "urlMatches (c # cs) =
     (case urlAt (c # cs) of
        Some (u, rest) \<Rightarrow> u # urlMatches rest
      | None \<Rightarrow> urlMatches cs)"
  by pat_completeness auto
termination
proof (relation "measure length")
  show "wf (measure length)" by simp
next
  fix c :: char and cs x2 u rest
  assume "urlAt (c # cs) = Some x2" and "(u, rest) = x2"
  then have a: "urlAt (c # cs) = Some (u, rest)" by simp
  then obtain n where sch: "urlScheme (c # cs) = Some n"
    and r: "rest = dropWhile (\<lambda>c. \<not> isUrlStop c) (drop n (c # cs))"
    unfolding urlAt_def Let_def by (cases "urlScheme (c # cs)") (auto split: if_splits)
  from sch have "0 < n"
    unfolding urlScheme_def by (auto split: if_splits)
  moreover have "length rest \<le> length (c # cs) - n"
    unfolding r using length_dropWhile_le [of "\<lambda>c. \<not> isUrlStop c" "drop n (c # cs)"]
    by (simp only: length_drop)
  ultimately have "length rest < length (c # cs)" by simp
  then show "(rest, c # cs) \<in> measure length" by simp
next
  fix c :: char and cs
  show "(cs, c # cs) \<in> measure length" by simp
qed

declare urlMatches.simps [simp del]

text \<open>
  \<^verbatim>\<open>
  const scanStylePayload = (payload: any) => {
    if (!payload) return;
    const s = typeof payload === "string" ? payload : JSON.stringify(payload);
    const ids = s.match(/[a-f0-9]{24}/gi) || [];
    for (const id of ids) { if (imageById.has(id)) markUsed(id); }
    const urls = s.match(/https?:\/\/[^\s"')]+/g) || [];
    for (const u of urls) { const id = urlToId.get(u); if (id) markUsed(id); }
  };
  \<close>
\<close>

definition markId :: "lookups \<Rightarrow> string \<Rightarrow> scanVars \<Rightarrow> scanVars" where
  "markId lk i v = (if imageById lk i \<noteq> None then markUsed lk i v else v)"

definition markUrl :: "lookups \<Rightarrow> string \<Rightarrow> scanVars \<Rightarrow> scanVars" where
  "markUrl lk u v = (case urlToId lk u of Some i \<Rightarrow> markUsed lk i v | None \<Rightarrow> v)"

definition scanStylePayload :: "lookups \<Rightarrow> string option \<Rightarrow> scanVars \<Rightarrow> scanVars" where
  "scanStylePayload lk payload v =
     (case payload of
        None \<Rightarrow> v
      | Some s \<Rightarrow> fold (markUrl lk) (urlMatches s) (fold (markId lk) (hexIds s) v))"

text \<open>
  \<^verbatim>\<open>await st.getProperties?.().catch(() => null)\<close>: a missing method and a rejected call
  both give no payload.
\<close>

definition styleProps :: "hostStyle \<Rightarrow> string option" where
  "styleProps st = (case getProperties st of Some (Resolved p) \<Rightarrow> p | _ \<Rightarrow> None)"

text \<open>
  The body of the loop over the elements of a page:
  \<^verbatim>\<open>
  if (el?.type === "Image" && typeof el.getAsset === "function") {
    try { const a = await el.getAsset(); if (a?.id) markUsed(String(a.id)); } catch {}
  }
  try {
    if (typeof el?.getStyles === "function") {
      const styles: any[] = (await el.getStyles()) || [];
      for (const st of styles) {
        const props = await st.getProperties?.().catch(() => null);
        scanStylePayload(props);
      }
    }
  } catch {}
  try {
    if (typeof el?.getStyle === "function") {
      const st = await el.getStyle().catch(() => null);
      const props = await st?.getProperties?.().catch(() => null);
      scanStylePayload(props);
    }
  } catch {}
  try {
    if (typeof el?.getBackgroundImage === "function") {
      const bg = await el.getBackgroundImage().catch(() => null);
      if (bg?.id) markUsed(String(bg.id));
    }
  } catch {}
  \<close>
\<close>

definition markAssetOf :: "lookups \<Rightarrow> string option outcome option \<Rightarrow> scanVars \<Rightarrow> scanVars" where
  "markAssetOf lk m v = (case m of Some (Resolved (Some i)) \<Rightarrow> markUsed lk i v | _ \<Rightarrow> v)"

definition scanElement :: "lookups \<Rightarrow> hostElement \<Rightarrow> scanVars \<Rightarrow> scanVars" where
  "scanElement lk el v =
     (let v1 = (if el_type el = ''Image'' then markAssetOf lk (getAsset el) v else v);
          v2 = (case getStyles el of
                  Some (Resolved styles) \<Rightarrow> fold (\<lambda>st. scanStylePayload lk (styleProps st)) styles v1
                | _ \<Rightarrow> v1);
          v3 = (case getStyle el of
                  Some (Resolved (Some st)) \<Rightarrow> scanStylePayload lk (styleProps st) v2
                | _ \<Rightarrow> v2)
      in markAssetOf lk (getBackgroundImage el) v3)"

text \<open>
  The page's social-preview images:
  \<^verbatim>\<open>
  const ogUrl = await page.getOpenGraphImage?.().catch(() => "");
  if (ogUrl) { const id = urlToId.get(String(ogUrl)); if (id) markUsed(id); }
  \<close>
  and the same for \<^verbatim>\<open>getSearchImage\<close>.
\<close>

definition markSocialImage :: "lookups \<Rightarrow> string outcome option \<Rightarrow> scanVars \<Rightarrow> scanVars" where
  "markSocialImage lk m v = (case m of Some (Resolved u) \<Rightarrow> markUrl lk u v | _ \<Rightarrow> v)"

text \<open>
  \<^verbatim>\<open>
  for (let i = 0; i < pages.length; i++) {
    const page = pages[i];
    try { await webflow.switchPage(page); } catch { continue; }
    scannedPages++;
    const elements: any[] = (await webflow.getAllElements?.()) || [];
    scannedElements += elements.length;
    for (const el of elements) { ... }
    ... social-preview images ...
  }
  \<close>
  A rejected \<^verbatim>\<open>getAllElements\<close> is not caught inside the loop: it ends the sweep with an
  error.
\<close>

datatype scanError = NoAssetsApi | ScanFailed

fun scanPages :: "lookups \<Rightarrow> hostPage list \<Rightarrow> scanVars \<Rightarrow> scanError + scanVars" where
  "scanPages lk [] v = Inr v"
| "scanPages lk (page # pages) v =
     (if \<not> switchPage page then scanPages lk pages v
      else
        (case getAllElements page of
           Some Rejected \<Rightarrow> Inl ScanFailed
         | m \<Rightarrow>
             (let elements = (case m of Some (Resolved els) \<Rightarrow> els | _ \<Rightarrow> []);
                  v1 = v\<lparr>sv_scannedPages := sv_scannedPages v + 1,
                         sv_scannedElements := sv_scannedElements v + length elements\<rparr>;
                  v2 = fold (scanElement lk) elements v1;
                  v3 = markSocialImage lk (getOpenGraphImage page) v2;
                  v4 = markSocialImage lk (getSearchImage page) v3
              in scanPages lk pages v4)))"

text \<open>
  \<^verbatim>\<open>
  const BATCH = 40;
  for (let i = 0; i < styles.length; i += BATCH) {
    const batch = styles.slice(i, i + BATCH);
    const propsList = await Promise.all(batch.map((s: any) => s.getProperties?.().catch(() => null)));
    for (const props of propsList) scanStylePayload(props);
  }
  \<close>
\<close>

definition BATCH :: nat where
  "BATCH = 40"

function scanStyleBatches :: "lookups \<Rightarrow> hostStyle list \<Rightarrow> nat \<Rightarrow> scanVars \<Rightarrow> scanVars" where
  "scanStyleBatches lk styles i v =
     (if i < length styles then
        (let batch = take BATCH (drop i styles);
             propsList = map styleProps batch
         in scanStyleBatches lk styles (i + BATCH) (fold (scanStylePayload lk) propsList v))
      else v)"
  by pat_completeness auto
termination
  by (relation "measure (\<lambda>(lk, styles, i, v). length styles - i)") (auto simp: BATCH_def)

declare scanStyleBatches.simps [simp del]

text \<open>
  The sweep. \<^verbatim>\<open>getAllAssets\<close> must be a function; a rejected \<^verbatim>\<open>getAllAssets\<close>,
  \<^verbatim>\<open>getAllPagesAndFolders\<close> or \<^verbatim>\<open>getAllStyles\<close> ends the sweep with an error. The second
  argument is the measured duration. The progress display is left out.
  \<^verbatim>\<open>
  const rows: ImageRow[] = images.map((img) => ({
    id: img.id, name: img.name, url: img.url, mimeType: img.mimeType, isUnused: !img.used }));
  const result: ScanResult = { images: rows,
    meta: { scannedPages, scannedElements, scannedStyles, detectedReferences,
            durationMs: Math.round(ended - started), scannedAssets: allAssets.length } };
  \<close>
\<close>

definition toRow :: "ImgInternal \<Rightarrow> ImageRow" where
  "toRow img = \<lparr>row_id = img_id img, row_name = img_name img, row_url = img_url img,
                row_mimeType = img_mimeType img, isUnused = (\<not> used img)\<rparr>"

definition pagesOf :: "hostItem list \<Rightarrow> hostPage list" where
  "pagesOf items = concat (map (\<lambda>it. case it of Page p \<Rightarrow> [p] | Folder \<Rightarrow> []) items)"

definition runScan :: "designer \<Rightarrow> nat \<Rightarrow> scanError + ScanResult" where
  "runScan webflow dur =
     (case getAllAssets webflow of
        None \<Rightarrow> Inl NoAssetsApi
      | Some Rejected \<Rightarrow> Inl ScanFailed
      | Some (Resolved allAssets) \<Rightarrow>
          (let imgs = collectImages allAssets;
               lk = buildLookups emptyLookups 0 imgs
           in case getAllPagesAndFolders webflow of
                Some Rejected \<Rightarrow> Inl ScanFailed
              | mi \<Rightarrow>
                  (let items = (case mi of Some (Resolved its) \<Rightarrow> its | _ \<Rightarrow> []);
                       pages = pagesOf items;
                       v0 = \<lparr>sv_images = imgs, sv_scannedPages = 0, sv_scannedElements = 0,
                             sv_detectedReferences = 0\<rparr>
                   in case scanPages lk pages v0 of
                        Inl e \<Rightarrow> Inl e
                      | Inr v1 \<Rightarrow>
                          (case getAllStyles webflow of
                             Some Rejected \<Rightarrow> Inl ScanFailed
                           | ms \<Rightarrow>
                               (let styles = (case ms of Some (Resolved sts) \<Rightarrow> sts | _ \<Rightarrow> []);
                                    v2 = scanStyleBatches lk styles 0 v1
                                in Inr \<lparr>images = map toRow (sv_images v2),
                                        meta = \<lparr>scannedPages = sv_scannedPages v2,
                                                scannedElements = sv_scannedElements v2,
                                                scannedStyles = length styles,
                                                detectedReferences = sv_detectedReferences v2,
                                                durationMs = dur,
                                                scannedAssets = length allAssets\<rparr>\<rparr>)))))"




definition visitedPages :: "designer \<Rightarrow> hostPage list" where
  "visitedPages webflow =
     filter switchPage
       (pagesOf (case getAllPagesAndFolders webflow of Some (Resolved its) \<Rightarrow> its | _ \<Rightarrow> []))"



























section \<open>Selection: toggling select-all\<close>

lemma allUnusedIds_loop_set:
  "set (allUnusedIds_loop ids imgs) = set ids \<union> row_id ` {img \<in> set imgs. isUnused img}"
  by (induction imgs arbitrary: ids) (auto simp: setAdd_def setHas_def)

lemma allUnusedIds_set:
  "set (allUnusedIds imgs) = row_id ` {img \<in> set imgs. isUnused img}"
  by (simp add: allUnusedIds_def allUnusedIds_loop_set)

lemma isAll_loop_subset: "isAll_loop prev xs = (set xs \<subseteq> set prev)"
  by (induction xs) (auto simp: setHas_def)

text \<open>
  C8. When at least one unused image is listed, one toggle of select-all from the empty
  selection selects exactly the ids of the unused imgs, and a second toggle empties
  the selection again.
\<close>

theorem toggleSelectAllUnused_once_twice:
  assumes "\<exists>img \<in> set imgs. isUnused img"
  shows "set (toggleSelectAllUnused (allUnusedIds imgs) []) =
           set (map row_id (filter isUnused imgs))
       \<and> toggleSelectAllUnused (allUnusedIds imgs)
           (toggleSelectAllUnused (allUnusedIds imgs) []) = []"
proof -
  let ?u = "allUnusedIds imgs"
  from assms have ne: "set ?u \<noteq> {}"
    by (auto simp: allUnusedIds_set)
  then have len: "length ?u \<noteq> 0" by auto
  have notall: "\<not> isAll_loop [] ?u"
    using ne by (simp add: isAll_loop_subset)
  have once: "toggleSelectAllUnused ?u [] = ?u"
    using len notall by (simp add: toggleSelectAllUnused_def)
  have twice: "toggleSelectAllUnused ?u ?u = []"
    using len by (simp add: toggleSelectAllUnused_def isAll_loop_subset)
  show ?thesis
    using once twice by (auto simp: allUnusedIds_set)
qed

theorem toggleSelectAllUnused_once_twice_witness:
  "(\<exists>img \<in> set [\<lparr>row_id = ''a1'', row_name = ''x.png'', row_url = '''', row_mimeType = ''image/png'', isUnused = True\<rparr>,
                    \<lparr>row_id = ''a2'', row_name = ''y.png'', row_url = '''', row_mimeType = ''image/png'', isUnused = False\<rparr>].
      isUnused img)
   \<and> toggleSelectAllUnused (allUnusedIds
        [\<lparr>row_id = ''a1'', row_name = ''x.png'', row_url = '''', row_mimeType = ''image/png'', isUnused = True\<rparr>,
         \<lparr>row_id = ''a2'', row_name = ''y.png'', row_url = '''', row_mimeType = ''image/png'', isUnused = False\<rparr>]) [] = [''a1'']
   \<and> toggleSelectAllUnused [''a1''] [''a1''] = []"
  using toggleSelectAllUnused_once_twice
    [of "[\<lparr>row_id = ''a1'', row_name = ''x.png'', row_url = '''', row_mimeType = ''image/png'', isUnused = True\<rparr>,
          \<lparr>row_id = ''a2'', row_name = ''y.png'', row_url = '''', row_mimeType = ''image/png'', isUnused = False\<rparr>]"]
  by (simp add: allUnusedIds_def setAdd_def setHas_def toggleSelectAllUnused_def)

section \<open>Backend: authentication status\<close>


lemma hasAnyAuthorization_loop_iff:
  "hasAnyAuthorization_loop sites ids =
     (\<exists>i \<in> set ids. \<exists>e. map_of sites i = Some e \<and> carriesToken e)"
  by (induction ids) (auto simp: jsGet_def carriesToken_def split: option.splits)

lemma hasAnyAuthorization_iff:
  "hasAnyAuthorization s = (\<exists>k e. map_of (sitesOf s) k = Some e \<and> carriesToken e)"
proof (cases "authorizedSites s")
  case None
  then show ?thesis by (simp add: hasAnyAuthorization_def sitesOf_def)
next
  case (Some m)
  have "hasAnyAuthorization_loop m (map fst m) = (\<exists>k e. map_of m k = Some e \<and> carriesToken e)"
    unfolding hasAnyAuthorization_loop_iff
    by (metis domI dom_map_of_conv_image_fst list.set_map)
  moreover have "m = [] \<Longrightarrow> \<not> (\<exists>k e. map_of m k = Some e \<and> carriesToken e)" by simp
  ultimately show ?thesis
    using Some by (auto simp: hasAnyAuthorization_def sitesOf_def objectKeys_def Let_def)
qed

lemma ensureAuthorizedSites_eq:
  "ensureAuthorizedSites s = (s\<lparr>authorizedSites := Some (sitesOf s)\<rparr>, sitesOf s)"
  by (cases "authorizedSites s") (simp_all add: ensureAuthorizedSites_def sitesOf_def)

lemma sitesOf_update [simp]: "sitesOf (s\<lparr>authorizedSites := Some m\<rparr>) = m"
  by (simp add: sitesOf_def)

lemma sitesOf_accessToken [simp]: "sitesOf (s\<lparr>accessToken := g\<rparr>) = sitesOf s"
  by (simp add: sitesOf_def)

text \<open>
  C1 (as amended). The status response reports \<open>authenticated\<close> exactly when some entry of
  the session's authorized-site map carries a token that is not blank, that is, not empty
  after trimming white space. The session's own access token plays no part.
\<close>

theorem authStatus_authenticated_iff:
  "snd (authStatusRoute s) =
     Response 200 (AuthStatus (\<exists>k e. map_of (sitesOf s) k = Some e \<and> carriesToken e)
                    (length (sitesOf s)) (map fst (sitesOf s)))"
  by (simp add: authStatusRoute_def ensureAuthorizedSites_eq hasAnyAuthorization_iff objectKeys_def)


text \<open>
  A site entry whose token is the non-empty string of one space: the response says
  \<open>authenticated: false\<close>.
\<close>

theorem authStatus_blank_token_counterexample:
  "map_of (sitesOf blankTokenSession) ''s1'' =
      Some \<lparr>siteId = ''s1'', siteName = None, site_accessToken = Some '' '', site_scopes = None,
            firstSeenAt = 0, lastSeenAt = 0\<rparr>
   \<and> '' '' \<noteq> ''''
   \<and> snd (authStatusRoute blankTokenSession) = Response 200 (AuthStatus False 1 [''s1''])"
  by (simp add: blankTokenSession_def sitesOf_def authStatusRoute_def ensureAuthorizedSites_def
      hasAnyAuthorization_def objectKeys_def jsGet_def trim_def isWhiteSpace_def orEmpty_def)

text \<open>
  C9 (as amended). The status response holds the authenticated flag, the number of entries
  of the authorized-site map and its site ids. The handler leaves a session that already
  has a map unchanged; a session without one gets the empty map, and nothing else changes.
\<close>

theorem authStatus_session_effect:
  "fst (authStatusRoute s) = s\<lparr>authorizedSites := Some (sitesOf s)\<rparr>
   \<and> snd (authStatusRoute s) =
       Response 200 (AuthStatus (hasAnyAuthorization s) (length (objectKeys (sitesOf s)))
                      (objectKeys (sitesOf s)))
   \<and> (fst (authStatusRoute s) = s) = (authorizedSites s \<noteq> None)"
proof -
  have h: "hasAnyAuthorization (s\<lparr>authorizedSites := Some (sitesOf s)\<rparr>) = hasAnyAuthorization s"
    by (simp add: hasAnyAuthorization_iff)
  have "(s\<lparr>authorizedSites := Some (sitesOf s)\<rparr> = s) = (authorizedSites s \<noteq> None)"
    by (cases "authorizedSites s") (auto simp: sitesOf_def dest: arg_cong[where f=authorizedSites])
  then show ?thesis
    by (simp add: authStatusRoute_def ensureAuthorizedSites_eq h objectKeys_def)
qed


text \<open>
  For a session without a map the handler does change the session.
\<close>

theorem authStatus_changes_session_counterexample:
  "fst (authStatusRoute freshSession) \<noteq> freshSession
   \<and> authorizedSites (fst (authStatusRoute freshSession)) = Some []"
  by (simp add: freshSession_def authStatusRoute_def ensureAuthorizedSites_def)

text \<open>
  The TypeScript variant of the check accepts a session whose only credential is its own
  access token.
\<close>

lemma hasAnyAuthorization_ts_iff:
  "hasAnyAuthorization_ts s = (truthy (accessToken s) \<or> sitesOf s \<noteq> [])"
  by (cases "authorizedSites s") (auto simp: hasAnyAuthorization_ts_def sitesOf_def objectKeys_def)

lemma authStatusRoute_ts_eq:
  "authStatusRoute_ts s = (s, truthy (accessToken s) \<or> sitesOf s \<noteq> [])"
  by (simp add: authStatusRoute_ts_def hasAnyAuthorization_ts_iff)

section \<open>Backend: deleting an asset\<close>

lemma hasAnyAuthorization_accessToken [simp]:
  "hasAnyAuthorization (s\<lparr>accessToken := g\<rparr>) = hasAnyAuthorization s"
  by (simp add: hasAnyAuthorization_def)

text \<open>
  The route sits behind \<open>requireAuth\<close>: for a session with an access token of its own and
  an empty site map, the delete request for a site that is not in the map is answered 401
  before the route's own checks run.
\<close>

lemma deleteAsset_requireAuth_first:
  "''s1'' \<notin> set (objectKeys (sitesOf globalTokenOnlySession))
   \<and> fst (snd (deleteAssetRoute webflowApi globalTokenOnlySession ''s1'' ''a1'')) =
       Response 401 (Message ''Not authenticated'')"
  by (simp add: globalTokenOnlySession_def sitesOf_def objectKeys_def deleteAssetRoute_def
      requireAuth_def hasAnyAuthorization_def)

text \<open>
  Where the read \<^verbatim>\<open>authorizedSites[siteId]\<close> finds nothing at all, the route answers as
  intended: 403 once the session has passed \<open>requireAuth\<close> and both path parameters are
  non-blank, whatever the session's own access token is, and without an upstream call.
\<close>

lemma deleteAsset_undefined_entry:
  assumes "jsGet (sitesOf s) (trim siteIdParam) = Undefined"
  shows "fst (snd (deleteAssetRoute api (s\<lparr>accessToken := g\<rparr>) siteIdParam assetIdParam)) =
           (if \<not> hasAnyAuthorization s then Response 401 (Message ''Not authenticated'')
            else if trim siteIdParam = [] \<or> trim assetIdParam = []
              then Response 400 (Message ''Missing siteId or assetId'')
            else Response 403 (Message ''Site is not authorized for this session''))
       \<and> snd (snd (deleteAssetRoute api (s\<lparr>accessToken := g\<rparr>) siteIdParam assetIdParam)) = []"
  using assms
  by (simp add: deleteAssetRoute_def requireAuth_def ensureAuthorizedSites_eq Let_def)

text \<open>
  C2. A site id that is not a key of the session's authorized-site map must be answered
  403. The session holds the site \<open>s1\<close> only and has an access token of its own; the
  request names the site \<open>constructor\<close>. The read \<^verbatim>\<open>authorizedSites[siteId]\<close> finds the
  property that every object inherits under that name, so the 403 check does not fire,
  and the token for the request falls back to the session's own. With the imported
  \<open>webflowApi\<close> the answer is 500; with an API object that provides \<open>assets.delete\<close> the
  asset is deleted upstream with the session's own token and the answer is 204.
\<close>

theorem deleteAsset_inherited_name_not_403:
  "''constructor'' \<notin> set (objectKeys (sitesOf oneSiteSession))
   \<and> deleteAssetRoute webflowApi oneSiteSession ''constructor'' ''a1'' =
       (oneSiteSession, Response 500 (Message ''Server error''), [])
   \<and> deleteAssetRoute acceptingApi oneSiteSession ''constructor'' ''a1'' =
       (oneSiteSession, Response 204 NoBody, [(''tok'', ''a1'')])"
  by (simp add: oneSiteSession_def sitesOf_def deleteAssetRoute_def requireAuth_def
      hasAnyAuthorization_def objectKeys_def jsGet_def objectPrototypeNames_def trim_def
      isWhiteSpace_def orEmpty_def orElse_def truthy_def ensureAuthorizedSites_def
      getAccessTokenForSite_def webflowApi_def acceptingApi_def errorHandler_def Let_def)

text \<open>
  C3. The session holds site \<open>s1\<close> with the token \<open>tok1\<close>; both path parameters are
  non-empty. The claim expects an upstream delete call with \<open>tok1\<close> and the answer 204.
  The imported \<open>webflowApi\<close> has no \<open>assets\<close> namespace, so the call throws before any
  request is sent and the error handler answers 500.
\<close>

theorem deleteAsset_authorized_site_fails:
  "deleteAssetRoute webflowApi oneSiteSession ''s1'' ''a1'' =
     (oneSiteSession, Response 500 (Message ''Server error''), [])"
  by (simp add: oneSiteSession_def deleteAssetRoute_def requireAuth_def hasAnyAuthorization_def
      objectKeys_def jsGet_def trim_def isWhiteSpace_def orEmpty_def orElse_def truthy_def
      ensureAuthorizedSites_def getAccessTokenForSite_def webflowApi_def errorHandler_def Let_def)

text \<open>With the imported \<open>webflowApi\<close> no request is ever answered 204.\<close>

lemma deleteAssetRoute_webflowApi_never_204:
  "fst (snd (deleteAssetRoute webflowApi s siteIdParam assetIdParam)) \<noteq> Response 204 NoBody
   \<and> snd (snd (deleteAssetRoute webflowApi s siteIdParam assetIdParam)) = []"
  by (simp add: deleteAssetRoute_def requireAuth_def webflowApi_def errorHandler_def Let_def
      split: prod.splits option.splits)

lemma dropWhile_rev_dropWhile:
  assumes "u = [] \<or> \<not> P (hd u)"
  shows "dropWhile P (rev (dropWhile P (rev u))) = rev (dropWhile P (rev u))"
proof (cases u)
  case Nil
  then show ?thesis by simp
next
  case (Cons x xs)
  with assms have "\<not> P x" by simp
  then show ?thesis using Cons by (simp add: dropWhile_append)
qed

lemma trim_idem: "trim (trim s) = trim s"
proof -
  let ?u = "dropWhile isWhiteSpace s"
  have h: "?u = [] \<or> \<not> isWhiteSpace (hd ?u)"
    by (metis hd_dropWhile)
  show ?thesis
    unfolding trim_def
    using dropWhile_rev_dropWhile [of ?u isWhiteSpace, OF h] by simp
qed

text \<open>
  With an API object that does provide \<open>assets.delete\<close>, the route calls it with the site's
  token and answers 204 when the call succeeds.
\<close>

lemma deleteAssetRoute_with_assets_namespace:
  assumes "map_of (sitesOf s) (trim siteIdParam) = Some entry"
      and "carriesToken entry"
      and "trim siteIdParam \<noteq> []" and "trim assetIdParam \<noteq> []"
      and "api_assets api = Some del"
      and "del (trim (orEmpty (site_accessToken entry))) (trim assetIdParam) = Inr ()"
  shows "snd (deleteAssetRoute api s siteIdParam assetIdParam) =
           (Response 204 NoBody, [(trim (orEmpty (site_accessToken entry)), trim assetIdParam)])"
proof -
  have auth: "hasAnyAuthorization s"
    using assms(1,2) by (auto simp: hasAnyAuthorization_iff)
  have tr: "truthy (site_accessToken entry)"
    using assms(2) by (auto simp: carriesToken_def truthy_def orEmpty_def trim_def split: option.splits)
  have tt: "trim (trim siteIdParam) = trim siteIdParam" by (rule trim_idem)
  show ?thesis
    using assms auth tr
    by (simp add: deleteAssetRoute_def requireAuth_def ensureAuthorizedSites_eq Let_def jsGet_def
        getAccessTokenForSite_def orElse_def carriesToken_def tt)
qed

section \<open>Backend: listing the authorized sites\<close>

lemma set_arraySort_insert: "set (arraySort_insert cmp x ys) = insert x (set ys)"
  by (induction ys) auto

lemma mset_arraySort_insert: "mset (arraySort_insert cmp x ys) = add_mset x (mset ys)"
  by (induction ys) auto

lemma mset_arraySort: "mset (arraySort cmp xs) = mset xs"
  by (induction xs) (auto simp: mset_arraySort_insert)

lemma comparator_total:
  assumes "consistentComparator cmp"
  shows "cmp x y \<le> 0 \<or> cmp y x \<le> 0"
proof -
  from assms have "(cmp y x < 0) = (0 < cmp x y)"
    by (simp add: consistentComparator_def)
  then show ?thesis by linarith
qed

lemma comparator_zero_sym:
  assumes "consistentComparator cmp" and "cmp x y = 0"
  shows "cmp y x = 0"
proof -
  from assms(1) have "(cmp x y < 0) = (0 < cmp y x)" and "(cmp y x < 0) = (0 < cmp x y)"
    by (simp_all add: consistentComparator_def)
  with assms(2) show ?thesis by linarith
qed

lemma comparator_trans:
  assumes "consistentComparator cmp" and "cmp x y \<le> 0" and "cmp y z \<le> 0"
  shows "cmp x z \<le> 0"
  using assms unfolding consistentComparator_def by blast

lemma sorted_arraySort_insert:
  assumes c: "consistentComparator cmp"
      and s: "sorted_wrt (\<lambda>a b. cmp a b \<le> 0) ys"
  shows "sorted_wrt (\<lambda>a b. cmp a b \<le> 0) (arraySort_insert cmp x ys)"
  using s
proof (induction ys)
  case Nil
  then show ?case by simp
next
  case (Cons y ys)
  show ?case
  proof (cases "cmp x y \<le> 0")
    case True
    have "\<forall>z \<in> set ys. cmp x z \<le> 0"
      using Cons.prems True comparator_trans [OF c] by auto
    with True Cons.prems show ?thesis by simp
  next
    case False
    then have "cmp y x \<le> 0"
      using comparator_total [OF c, of x y] by simp
    with False Cons show ?thesis
      by (auto simp: set_arraySort_insert)
  qed
qed

lemma sorted_arraySort:
  assumes "consistentComparator cmp"
  shows "sorted_wrt (\<lambda>a b. cmp a b \<le> 0) (arraySort cmp xs)"
  by (induction xs) (auto intro: sorted_arraySort_insert [OF assms])

lemma filter_arraySort_insert:
  assumes c: "consistentComparator cmp"
  shows "filter (\<lambda>a. cmp a z = 0) (arraySort_insert cmp x ys) =
           (if cmp x z = 0 then x # filter (\<lambda>a. cmp a z = 0) ys
            else filter (\<lambda>a. cmp a z = 0) ys)"
proof (induction ys)
  case Nil
  then show ?case by simp
next
  case (Cons y ys)
  show ?case
  proof (cases "cmp x y \<le> 0")
    case True
    then show ?thesis by simp
  next
    case False
    have "\<not> (cmp x z = 0 \<and> cmp y z = 0)"
    proof
      assume h: "cmp x z = 0 \<and> cmp y z = 0"
      then have "cmp z y = 0" using comparator_zero_sym [OF c] by blast
      with h have "cmp x y \<le> 0" using comparator_trans [OF c, of x z y] by simp
      with False show False by simp
    qed
    with False Cons.IH show ?thesis by auto
  qed
qed

lemma filter_arraySort:
  assumes "consistentComparator cmp"
  shows "filter (\<lambda>a. cmp a z = 0) (arraySort cmp xs) = filter (\<lambda>a. cmp a z = 0) xs"
  by (induction xs) (auto simp: filter_arraySort_insert [OF assms])

lemma consistentComparator_keys:
  assumes "consistentComparator lc"
  shows "consistentComparator (\<lambda>a b. lc (f a) (f b))"
  using assms unfolding consistentComparator_def by blast

lemma consistentComparator_codeUnitCompare: "consistentComparator codeUnitCompare"
  unfolding consistentComparator_def codeUnitCompare_def
  by auto


text \<open>
  Two sites with the same display name, stored in the order \<open>b\<close>, \<open>a\<close>: the response lists
  \<open>b\<close> before \<open>a\<close>, so the site id does not break the tie.
\<close>

theorem sitesRoute_equal_names_counterexample:
  "snd (sitesRoute codeUnitCompare sameNameSession) =
     Response 200 (Sites [SiteSummary ''b'' (Some ''Shop'') (Some ''Shop''),
                          SiteSummary ''a'' (Some ''Shop'') (Some ''Shop'')])
   \<and> codeUnitCompare ''a'' ''b'' < 0"
  by (simp add: sameNameSession_def sitesRoute_def requireAuth_def hasAnyAuthorization_def
      objectKeys_def jsGet_def trim_def isWhiteSpace_def orEmpty_def orElse_def truthy_def
      ensureAuthorizedSites_def siteSummaryOf_def sortKey_def codeUnitCompare_def Let_def
      less_char_def)

text \<open>The same holds for every comparator that finds a string equal to itself.\<close>

lemma sitesRoute_equal_names_keep_order:
  assumes "lc ''Shop'' ''Shop'' = 0"
  shows "snd (sitesRoute lc sameNameSession) =
           Response 200 (Sites [SiteSummary ''b'' (Some ''Shop'') (Some ''Shop''),
                                SiteSummary ''a'' (Some ''Shop'') (Some ''Shop'')])"
  using assms
  by (simp add: sameNameSession_def sitesRoute_def requireAuth_def hasAnyAuthorization_def
      objectKeys_def jsGet_def trim_def isWhiteSpace_def orEmpty_def orElse_def truthy_def
      ensureAuthorizedSites_def siteSummaryOf_def sortKey_def Let_def)

text \<open>
  C7 (as amended). For a session that passes \<open>requireAuth\<close> the response lists each site of
  the authorized-site map once, with its site name as display name. The list is ordered by
  the sort key under the comparator, where the sort key of a site is its display name, or
  its id when it has no display name. Sites whose sort keys compare equal keep the order
  of the map's keys.
\<close>

theorem sitesRoute_sorted_stable:
  assumes "consistentComparator lc" and "hasAnyAuthorization s"
  shows "\<exists>sites. snd (sitesRoute lc s) = Response 200 (Sites sites)
           \<and> mset sites = mset (map (siteSummaryOf (sitesOf s)) (objectKeys (sitesOf s)))
           \<and> sorted_wrt (\<lambda>a b. lc (sortKey a) (sortKey b) \<le> 0) sites
           \<and> (\<forall>z. filter (\<lambda>a. lc (sortKey a) (sortKey z) = 0) sites =
                    filter (\<lambda>a. lc (sortKey a) (sortKey z) = 0)
                      (map (siteSummaryOf (sitesOf s)) (objectKeys (sitesOf s))))"
proof -
  let ?cmp = "\<lambda>a b. lc (sortKey a) (sortKey b)"
  let ?xs = "map (siteSummaryOf (sitesOf s)) (objectKeys (sitesOf s))"
  have c: "consistentComparator ?cmp"
    using assms(1) by (rule consistentComparator_keys)
  have r: "snd (sitesRoute lc s) = Response 200 (Sites (arraySort ?cmp ?xs))"
    using assms(2) by (simp add: sitesRoute_def requireAuth_def ensureAuthorizedSites_eq Let_def)
  show ?thesis
    using r mset_arraySort [of ?cmp ?xs] sorted_arraySort [OF c, of ?xs]
      filter_arraySort [OF c, of _ ?xs]
    by simp
qed

theorem sitesRoute_sorted_stable_witness:
  "consistentComparator codeUnitCompare \<and> hasAnyAuthorization twoNamesSession
   \<and> snd (sitesRoute codeUnitCompare twoNamesSession) =
       Response 200 (Sites [SiteSummary ''s2'' (Some ''Shop'') (Some ''Shop''),
                            SiteSummary ''s1'' (Some ''Tea'') (Some ''Tea'')])
   \<and> sorted_wrt (\<lambda>a b. codeUnitCompare (sortKey a) (sortKey b) \<le> 0)
        [SiteSummary ''s2'' (Some ''Shop'') (Some ''Shop''),
         SiteSummary ''s1'' (Some ''Tea'') (Some ''Tea'')]"
proof -
  have a: "hasAnyAuthorization twoNamesSession"
    by (simp add: twoNamesSession_def hasAnyAuthorization_def objectKeys_def jsGet_def
        trim_def isWhiteSpace_def orEmpty_def)
  have r: "snd (sitesRoute codeUnitCompare twoNamesSession) =
       Response 200 (Sites [SiteSummary ''s2'' (Some ''Shop'') (Some ''Shop''),
                            SiteSummary ''s1'' (Some ''Tea'') (Some ''Tea'')])"
    by (simp add: twoNamesSession_def sitesRoute_def requireAuth_def hasAnyAuthorization_def
      objectKeys_def jsGet_def trim_def isWhiteSpace_def orEmpty_def orElse_def truthy_def
      ensureAuthorizedSites_def siteSummaryOf_def sortKey_def codeUnitCompare_def Let_def
      less_char_def)
  show ?thesis
    using sitesRoute_sorted_stable [OF consistentComparator_codeUnitCompare a] a r
      consistentComparator_codeUnitCompare
    by auto
qed

section \<open>Backend: merging OAuth scopes\<close>

lemma set_foldl_setAdd: "set (foldl setAdd acc xs) = set acc \<union> set xs"
  by (induction xs arbitrary: acc) (auto simp: setAdd_def setHas_def)

lemma mergeScopes_loop_filter:
  "mergeScopes_loop reqSet out prov = out @ filter (\<lambda>s. s \<notin> set reqSet) prov"
  by (induction prov arbitrary: out) (auto simp: setHas_def)

lemma splitScopes_pieces: "p \<in> set (splitScopes s) \<Longrightarrow> c \<in> set p \<Longrightarrow> \<not> isScopeSep c"
proof (induction s arbitrary: p rule: splitScopes.induct)
  case (1 s)
  let ?piece = "takeWhile (\<lambda>c. \<not> isScopeSep c) s"
  let ?rest = "dropWhile (\<lambda>c. \<not> isScopeSep c) s"
  have piece: "c \<in> set ?piece \<Longrightarrow> \<not> isScopeSep c"
    by (auto dest: set_takeWhileD)
  show ?case
  proof (cases "?rest = []")
    case True
    with "1.prems" piece show ?thesis
      by (subst (asm) splitScopes.simps) (simp add: Let_def)
  next
    case False
    from "1.prems"(1) False
    have "p = ?piece \<or> p \<in> set (splitScopes (dropWhile isScopeSep ?rest))"
      by (subst (asm) splitScopes.simps) (auto simp: Let_def split: if_splits)
    then show ?thesis
      using piece "1.IH" [OF refl refl False] "1.prems"(2) by blast
  qed
qed

lemma trim_no_space:
  assumes "\<forall>c \<in> set w. \<not> isWhiteSpace c"
  shows "trim w = w"
proof -
  have "dropWhile isWhiteSpace w = w"
    using assms by (cases w) auto
  moreover have "dropWhile isWhiteSpace (rev w) = rev w"
    using assms by (cases "rev w") (auto dest: arg_cong [where f = set])
  ultimately show ?thesis by (simp add: trim_def)
qed

lemma parseScopes_tokens: "w \<in> set (parseScopes raw) \<Longrightarrow> scopeToken w"
proof -
  assume "w \<in> set (parseScopes raw)"
  then obtain p where p: "p \<in> set (splitScopes raw)" and w: "w = trim p" and ne: "w \<noteq> []"
    by (auto simp: parseScopes_def)
  have "\<forall>c \<in> set p. \<not> isScopeSep c"
    using p splitScopes_pieces by blast
  then have "trim p = p" and "\<forall>c \<in> set p. \<not> isScopeSep c"
    by (auto intro: trim_no_space simp: isScopeSep_def)
  with w ne show ?thesis by (simp add: scopeToken_def list_all_iff)
qed

lemma hd_joinSpace: "w \<noteq> [] \<Longrightarrow> hd (joinSpace (w # ws)) = hd w"
  by (cases ws) auto

lemma joinSpace_Nil_iff: "list_all scopeToken ws \<Longrightarrow> (joinSpace ws = []) = (ws = [])"
  by (induction ws rule: joinSpace.induct) (auto simp: scopeToken_def)

lemma splitScopes_joinSpace:
  assumes "list_all scopeToken ws" and "ws \<noteq> []"
  shows "splitScopes (joinSpace ws) = ws"
  using assms
proof (induction ws rule: joinSpace.induct)
  case 1
  then show ?case by simp
next
  case (2 w)
  then have "\<forall>c \<in> set w. \<not> isScopeSep c"
    by (simp add: scopeToken_def list_all_iff)
  then have "takeWhile (\<lambda>c. \<not> isScopeSep c) w = w" and "dropWhile (\<lambda>c. \<not> isScopeSep c) w = []"
    by simp_all
  then show ?case
    by (subst splitScopes.simps) (simp add: Let_def)
next
  case (3 w v ws)
  let ?X = "joinSpace (v # ws)"
  from "3.prems" have w: "\<forall>c \<in> set w. \<not> isScopeSep c" and v: "scopeToken v"
    and rest: "list_all scopeToken (v # ws)"
    by (simp_all add: scopeToken_def list_all_iff)
  have sp: "isScopeSep (CHR '' '')"
    by (simp add: isScopeSep_def isWhiteSpace_def)
  have tw: "takeWhile (\<lambda>c. \<not> isScopeSep c) (w @ CHR '' '' # ?X) = w"
    using w sp by (simp add: takeWhile_append2)
  have dw: "dropWhile (\<lambda>c. \<not> isScopeSep c) (w @ CHR '' '' # ?X) = CHR '' '' # ?X"
    using w sp by (simp add: dropWhile_append2)
  have xne: "?X \<noteq> []"
    using rest joinSpace_Nil_iff [of "v # ws"] by simp
  have "hd ?X = hd v"
    using v by (simp add: hd_joinSpace scopeToken_def)
  moreover have "\<not> isScopeSep (hd v)"
    using v by (cases v) (simp_all add: scopeToken_def)
  ultimately have "\<not> isScopeSep (hd ?X)" by simp
  with xne have dx: "dropWhile isScopeSep ?X = ?X"
    by (cases ?X) simp_all
  have "splitScopes (w @ CHR '' '' # ?X) = w # splitScopes ?X"
    by (subst splitScopes.simps) (simp add: Let_def tw dw sp dx)
  moreover have "splitScopes ?X = v # ws"
    using "3.IH" rest by simp
  ultimately show ?case by simp
qed

lemma parseScopes_joinSpace:
  assumes "list_all scopeToken ws"
  shows "parseScopes (joinSpace ws) = ws"
proof (cases "ws = []")
  case True
  have "splitScopes [] = [[]]"
    by (subst splitScopes.simps) simp
  with True show ?thesis
    by (simp add: parseScopes_def trim_def)
next
  case False
  have "map trim ws = ws"
    using assms
    by (induction ws) (auto simp: scopeToken_def list_all_iff isScopeSep_def intro: trim_no_space)
  moreover have "filter (\<lambda>s. s \<noteq> []) ws = ws"
    using assms by (induction ws) (auto simp: scopeToken_def)
  ultimately show ?thesis
    using splitScopes_joinSpace [OF assms False] by (simp add: parseScopes_def)
qed

lemma mergeScopes_eq:
  "mergeScopes required provided =
     joinSpace (parseScopes required @
       filter (\<lambda>s. s \<notin> set (parseScopes required)) (parseScopes (orEmpty provided)))"
  by (simp add: mergeScopes_def mergeScopes_loop_filter set_foldl_setAdd Let_def)

text \<open>
  Extras that repeat a scope: the merged string repeats it, also in the authorize URL.
\<close>

theorem mergeScopes_repeated_extra_counterexample:
  "mergeScopes ''a,b'' (Some ''c,c'') = ''a b c c''
   \<and> authorizeUrl_scope (Some ''x,x'') =
       ''sites:read authorized_user:read assets:read assets:write x x''"
  by code_simp

text \<open>
  C6 (as amended). The merged scope string is the required scopes in their order, followed
  by each extra scope that is not a required one, in the order of the extras, joined by
  single spaces: splitting the string again gives back exactly that list, and normalising
  it for the authorize URL changes nothing. A scope is repeated in the result exactly when
  it is repeated among the required scopes or among the appended extras. Required
  \<open>a,b\<close> with extra \<open>b,c\<close> gives \<open>a b c\<close>.
\<close>

theorem mergeScopes_required_first:
  "mergeScopes required provided =
     joinSpace (parseScopes required @
       filter (\<lambda>s. s \<notin> set (parseScopes required)) (parseScopes (orEmpty provided)))
   \<and> parseScopes (mergeScopes required provided) =
       parseScopes required @
         filter (\<lambda>s. s \<notin> set (parseScopes required)) (parseScopes (orEmpty provided))
   \<and> authorizeUrl_scope provided = mergeScopes REQUIRED_SCOPES provided
   \<and> distinct (parseScopes (mergeScopes required provided)) =
       (distinct (parseScopes required)
        \<and> distinct (filter (\<lambda>s. s \<notin> set (parseScopes required)) (parseScopes (orEmpty provided))))
   \<and> mergeScopes ''a,b'' (Some ''b,c'') = ''a b c''"
proof -
  let ?out = "\<lambda>r. parseScopes r @
       filter (\<lambda>s. s \<notin> set (parseScopes r)) (parseScopes (orEmpty provided))"
  have tok: "list_all scopeToken (?out r)" for r
    by (auto simp: list_all_iff dest: parseScopes_tokens)
  have rt: "parseScopes (mergeScopes r provided) = ?out r" for r
    unfolding mergeScopes_eq by (rule parseScopes_joinSpace [OF tok])
  have norm: "authorizeUrl_scope provided = mergeScopes REQUIRED_SCOPES provided"
    unfolding authorizeUrl_scope_def normalizeScopes_def rt
    by (simp add: mergeScopes_eq)
  have ex: "mergeScopes ''a,b'' (Some ''b,c'') = ''a b c''"
    by code_simp
  have d: "distinct (?out required) =
       (distinct (parseScopes required)
        \<and> distinct (filter (\<lambda>s. s \<notin> set (parseScopes required)) (parseScopes (orEmpty provided))))"
    by auto
  show ?thesis
    using mergeScopes_eq [of required provided] rt [of required] norm d ex by simp
qed

section \<open>Frontend: the delete pipeline\<close>

lemma backendStep_fst:
  "fst (backendStep api sid i r) = (sid \<noteq> [] \<and> api sid i = ApiOk)"
  by (simp add: backendStep_def Let_def split: apiResult.splits)

lemma backendStep_snd:
  "deleted (snd (backendStep api sid i r)) = deleted r"
  "failed (snd (backendStep api sid i r)) = failed r"
  "doneCount (snd (backendStep api sid i r)) = doneCount r"
  by (simp_all add: backendStep_def Let_def split: apiResult.splits)

lemma deleteLoop_deleted:
  "set (deleted (deleteLoop webflow api sid byId tot ids r)) =
     set (deleted r) \<union>
       {i \<in> set ids. (sid \<noteq> [] \<and> api sid i = ApiOk) \<or> tryRemoveFromDesigner webflow (byId i) i}"
proof (induction ids arbitrary: r)
  case Nil
  then show ?case by simp
next
  case (Cons i ids)
  obtain ok1 r1 where b: "backendStep api sid i r = (ok1, r1)"
    by (cases "backendStep api sid i r")
  have ok1: "ok1 = (sid \<noteq> [] \<and> api sid i = ApiOk)" and r1: "deleted r1 = deleted r"
    using backendStep_fst [of api sid i r] backendStep_snd(1) [of api sid i r] b by simp_all
  show ?case
    by (simp add: b Let_def Cons.IH ok1 r1 setAdd_def setHas_def) blast
qed

lemma deleteLoop_failed:
  "failed (deleteLoop webflow api sid byId tot ids r) =
     failed r @
       filter (\<lambda>i. \<not> ((sid \<noteq> [] \<and> api sid i = ApiOk) \<or> tryRemoveFromDesigner webflow (byId i) i)) ids"
proof (induction ids arbitrary: r)
  case Nil
  then show ?case by simp
next
  case (Cons i ids)
  obtain ok1 r1 where b: "backendStep api sid i r = (ok1, r1)"
    by (cases "backendStep api sid i r")
  have ok1: "ok1 = (sid \<noteq> [] \<and> api sid i = ApiOk)" and r1: "failed r1 = failed r"
    using backendStep_fst [of api sid i r] backendStep_snd(2) [of api sid i r] b by simp_all
  show ?case
    by (simp add: b Let_def Cons.IH ok1 r1)
qed


lemma runDelete_deleted:
  "(i \<in> set (deleted (runDelete webflow api st))) =
     (i \<in> set (selectedIds st) \<and> (backendDeleted api st i \<or> designerRemoved webflow i))"
  by (auto simp: runDelete_def Let_def deleteLoop_deleted emptyRun_def backendDeleted_def
      designerRemoved_def)

lemma runDelete_failed:
  "(i \<in> set (failed (runDelete webflow api st))) =
     (i \<in> set (selectedIds st) \<and> \<not> (backendDeleted api st i \<or> designerRemoved webflow i))"
  by (auto simp: runDelete_def Let_def deleteLoop_failed emptyRun_def backendDeleted_def
      designerRemoved_def)


lemma performDelete_runs:
  assumes "scanResult st = Some sr" and "selectedIds st \<noteq> []"
  shows "snd (performDelete webflow api st) = Some (runDelete webflow api st)"
    and "scanResult (fst (performDelete webflow api st)) =
           Some \<lparr>images = filter (\<lambda>img. row_id img \<notin> set (deleted (runDelete webflow api st)))
                             (images sr),
                 meta = (meta sr)\<lparr>scannedAssets :=
                          scannedAssets (meta sr) - length (deleted (runDelete webflow api st))\<rparr>\<rparr>"
  using assms by (simp_all add: performDelete_def Let_def setHas_def)

text \<open>Without a scan result, or with nothing selected, the function returns at once.\<close>

lemma performDelete_returns_at_once:
  assumes "scanResult st = None \<or> selectedIds st = []"
  shows "performDelete webflow api st = (st, None)"
  using assms by (auto simp: performDelete_def split: option.splits)



text \<open>
  C10. A selected id that is not in the enumerated asset list, on a host where
  \<^verbatim>\<open>getAssetById\<close> is missing, fails or yields no asset: the removal from the Designer
  reports success, and the run records the id as deleted, whatever the backend answers
  and whether or not a site id is known.
\<close>

theorem unresolved_asset_recorded_deleted:
  assumes "scanResult st = Some sr" and "i \<in> set (selectedIds st)"
      and "\<forall>a \<in> set (enumeratedAssets webflow). asset_id a \<noteq> i"
      and "case getAssetById webflow of
             None \<Rightarrow> True
           | Some byId \<Rightarrow> byId i = Rejected \<or> byId i = Resolved None"
  shows "tryRemoveFromDesigner webflow (assetsById (enumeratedAssets webflow) i) i
       \<and> (\<exists>st' run. performDelete webflow api (st\<lparr>authGate_siteId := sid\<rparr>) = (st', Some run)
             \<and> i \<in> set (deleted run) \<and> i \<notin> set (failed run))"
proof -
  have "assetsById (enumeratedAssets webflow) i = None"
    using assms(3) by (auto simp: assetsById_def map_of_eq_None_iff)
  then have t: "designerRemoved webflow i"
    using assms(4)
    by (auto simp: designerRemoved_def tryRemoveFromDesigner_def split: option.splits)
  let ?st = "st\<lparr>authGate_siteId := sid\<rparr>"
  have ne: "selectedIds ?st \<noteq> []" and sr: "scanResult ?st = Some sr"
    and sel: "i \<in> set (selectedIds ?st)"
    using assms(1,2) by auto
  have "snd (performDelete webflow api ?st) = Some (runDelete webflow api ?st)"
    by (rule performDelete_runs(1) [OF sr ne])
  then have "performDelete webflow api ?st =
               (fst (performDelete webflow api ?st), Some (runDelete webflow api ?st))"
    by (metis prod.collapse)
  moreover have "i \<in> set (deleted (runDelete webflow api ?st))"
    using t sel by (simp add: runDelete_deleted)
  moreover have "i \<notin> set (failed (runDelete webflow api ?st))"
    using t by (simp add: runDelete_failed)
  ultimately show ?thesis
    using t by (auto simp: designerRemoved_def)
qed

theorem unresolved_asset_recorded_deleted_witness:
  "scanResult threeRowsState =
      Some \<lparr>images = [row ''a1'' True, row ''a2'' True, row ''a3'' False],
            meta = \<lparr>scannedPages = 1, scannedElements = 0, scannedStyles = 0,
                    detectedReferences = 1, durationMs = 5, scannedAssets = 3\<rparr>\<rparr>
   \<and> ''a2'' \<in> set (selectedIds threeRowsState)
   \<and> enumeratedAssets blindDesigner = []
   \<and> (case getAssetById blindDesigner of
             None \<Rightarrow> True
           | Some byId \<Rightarrow> byId ''a2'' = Rejected \<or> byId ''a2'' = Resolved None)
   \<and> refusingBackend ''s1'' ''a2'' = ApiError 403 ''Missing scope''
   \<and> deleted (runDelete blindDesigner refusingBackend threeRowsState) = [''a1'', ''a2'']
   \<and> (\<exists>st' run. performDelete blindDesigner refusingBackend
                    (threeRowsState\<lparr>authGate_siteId := None\<rparr>) = (st', Some run)
          \<and> ''a2'' \<in> set (deleted run) \<and> ''a2'' \<notin> set (failed run))"
proof -
  have a: "scanResult threeRowsState =
      Some \<lparr>images = [row ''a1'' True, row ''a2'' True, row ''a3'' False],
            meta = \<lparr>scannedPages = 1, scannedElements = 0, scannedStyles = 0,
                    detectedReferences = 1, durationMs = 5, scannedAssets = 3\<rparr>\<rparr>"
    by (simp add: threeRowsState_def)
  have b: "''a2'' \<in> set (selectedIds threeRowsState)"
    by (simp add: threeRowsState_def)
  have c: "\<forall>a \<in> set (enumeratedAssets blindDesigner). asset_id a \<noteq> ''a2''"
    by (simp add: enumeratedAssets_def blindDesigner_def)
  have d: "case getAssetById blindDesigner of
             None \<Rightarrow> True
           | Some byId \<Rightarrow> byId ''a2'' = Rejected \<or> byId ''a2'' = Resolved None"
    by (simp add: blindDesigner_def)
  have e: "refusingBackend ''s1'' ''a2'' = ApiError 403 ''Missing scope''"
    by (simp add: refusingBackend_def)
  have r: "deleted (runDelete blindDesigner refusingBackend threeRowsState) = [''a1'', ''a2'']"
    by code_simp
  from unresolved_asset_recorded_deleted [OF a b c d, of refusingBackend None]
  have "\<exists>st' run. performDelete blindDesigner refusingBackend
                    (threeRowsState\<lparr>authGate_siteId := None\<rparr>) = (st', Some run)
          \<and> ''a2'' \<in> set (deleted run) \<and> ''a2'' \<notin> set (failed run)"
    by blast
  moreover have "enumeratedAssets blindDesigner = []"
    by (simp add: enumeratedAssets_def blindDesigner_def)
  ultimately show ?thesis using a b d e r by blast
qed

section \<open>Frontend: the reference sweep\<close>

subsection \<open>The lookup maps\<close>







subsection \<open>Marking\<close>









subsection \<open>The sweep as a run of marks\<close>

lemma markUsed_Nil [simp]: "markUsed lk [] v = v"
  by (simp add: markUsed_def)














subsection \<open>When the sweep returns\<close>

lemma scanPages_returns:
  "(\<exists>v'. scanPages lk pages v = Inr v') =
     (\<forall>p \<in> set (filter switchPage pages). getAllElements p \<noteq> Some Rejected)"
proof (induction pages arbitrary: v)
  case Nil
  then show ?case by simp
next
  case (Cons page pages)
  show ?case
  proof (cases "switchPage page")
    case False
    then show ?thesis using Cons.IH by simp
  next
    case True
    show ?thesis
    proof (cases "getAllElements page = Some Rejected")
      case rej: True
      then show ?thesis using True by simp
    next
      case False
      then show ?thesis
        using True Cons.IH
        by (cases "getAllElements page") (auto simp: Let_def split: outcome.splits)
    qed
  qed
qed

text \<open>
  The sweep returns a result exactly when the host enumerates the assets and none of the
  uncaught calls is rejected.
\<close>

lemma runScan_returns:
  "(\<exists>res. runScan webflow dur = Inr res) =
     ((\<exists>allAssets. getAllAssets webflow = Some (Resolved allAssets))
      \<and> getAllPagesAndFolders webflow \<noteq> Some Rejected
      \<and> (\<forall>p \<in> set (visitedPages webflow). getAllElements p \<noteq> Some Rejected)
      \<and> getAllStyles webflow \<noteq> Some Rejected)"
proof (cases "getAllAssets webflow")
  case None
  then show ?thesis by (simp add: runScan_def)
next
  case (Some oa)
  show ?thesis
  proof (cases oa)
    case Rejected
    with Some show ?thesis by (simp add: runScan_def)
  next
    case (Resolved allAssets)
    let ?lk = "buildLookups emptyLookups 0 (collectImages allAssets)"
    let ?items = "case getAllPagesAndFolders webflow of Some (Resolved its) \<Rightarrow> its | _ \<Rightarrow> []"
    let ?v0 = "\<lparr>sv_images = collectImages allAssets, sv_scannedPages = 0, sv_scannedElements = 0,
                sv_detectedReferences = 0\<rparr>"
    have vp: "visitedPages webflow = filter switchPage (pagesOf ?items)"
      by (simp add: visitedPages_def)
    show ?thesis
    proof (cases "getAllPagesAndFolders webflow = Some Rejected")
      case True
      with Some Resolved show ?thesis by (simp add: runScan_def Let_def)
    next
      case nrp: False
      show ?thesis
      proof (cases "scanPages ?lk (pagesOf ?items) ?v0")
        case (Inl e)
        then have "\<not> (\<forall>p \<in> set (visitedPages webflow). getAllElements p \<noteq> Some Rejected)"
          using scanPages_returns [of ?lk "pagesOf ?items" ?v0] vp by simp
        moreover have "\<not> (\<exists>res. runScan webflow dur = Inr res)"
          using Some Resolved nrp Inl
          by (cases "getAllPagesAndFolders webflow")
             (auto simp: runScan_def Let_def split: outcome.splits)
        ultimately show ?thesis by blast
      next
        case (Inr v1)
        then have ok: "\<forall>p \<in> set (visitedPages webflow). getAllElements p \<noteq> Some Rejected"
          using scanPages_returns [of ?lk "pagesOf ?items" ?v0] vp by auto
        have "(\<exists>res. runScan webflow dur = Inr res) = (getAllStyles webflow \<noteq> Some Rejected)"
          using Some Resolved nrp Inr
          by (cases "getAllPagesAndFolders webflow"; cases "getAllStyles webflow")
             (auto simp: runScan_def Let_def split: outcome.splits)
        then show ?thesis
          using Some Resolved nrp ok by simp
      qed
    qed
  qed
qed

subsection \<open>Classification\<close>










end
